theory Spec2Isabelle
  imports Main
begin

section \<open>The resilient websocket provider of \<open>src/scripts/web-socket-connection.ts\<close>\<close>

text \<open>
  The class \<open>ResilientWebsocketProvider\<close> is embedded as a record of its fields together
  with the part of the JavaScript runtime its handlers act on: the pending timers, the sockets
  created so far, the promise returned by \<open>connect()\<close> and the sequence of calls made on the
  external collaborators (the socket transport, the provider client, the listeners, the console).

  JavaScript runs one handler at a time, up to its end or to the next \<open>await\<close> that has to
  wait for a timer or for the network. Every such stretch of the source is a function from
  state to state, and \<open>step\<close> delivers one notification: a socket event, the firing of a
  timer (the one-second sleeps of the open handler included), the answer to a pending
  \<open>getBlockNumber\<close> or \<open>getLogs\<close> call of a polling cycle, or a call by client code. Polling
  cycles can therefore overlap, as they do in the source, where \<open>setInterval\<close> does not wait
  for the cycle it started. The promise of the client's \<open>on\<close> is taken to settle before
  the next notification (it does not wait for the network), so a replay is one stretch.
  What the external collaborators answer during one stretch is an argument of type
  \<open>External\<close>. An exception that nothing in the class catches (a throwing \<open>ping()\<close>, the
  rejection of \<open>pollEvents\<close>) ends its stretch and is recorded as a report of the runtime;
  the instance is followed on from there, as it runs on when the host handles such errors.
\<close>

subsection \<open>Constants (lines 4 to 8)\<close>

definition EXPECTED_PONG_BACK :: nat where
  "EXPECTED_PONG_BACK = 15000"

definition KEEP_ALIVE_CHECK_INTERVAL :: nat where
  "KEEP_ALIVE_CHECK_INTERVAL = 60 * 1000"

definition MAX_RECONNECTION_ATTEMPTS :: nat where
  "MAX_RECONNECTION_ATTEMPTS = 10"

definition RECONNECTION_DELAY :: nat where
  "RECONNECTION_DELAY = 5000"

definition EVENT_POLL_INTERVAL :: nat where
  "EVENT_POLL_INTERVAL = 60 * 1000"

subsection \<open>Data\<close>

text \<open>
  A \<open>ProviderEvent\<close> of the client library is a string or some other selector (a topic
  array, a filter object); only strings are inspected by the source. Listeners and log entries
  are opaque to the source and are represented by their identity.
\<close>

datatype ProviderEvent = EventName string | EventOther nat

type_synonym Listener = nat

type_synonym Log = nat

datatype Error = Error string

record Subscription =
  type :: ProviderEvent
  listener :: Listener

record Filter =
  address :: string
  fromBlock :: int
  toBlock :: int

datatype ReadyState = CONNECTING | OPEN | CLOSING | CLOSED

text \<open>
  The functions handed to \<open>setTimeout\<close> and \<open>setInterval\<close> in the source. The last two are
  the continuations of the open handler after \<open>await this.sleep(1000)\<close> in the loops of
  lines 74 to 77 and 81 to 84; they carry the client \<open>wsp\<close> the handler has constructed.
\<close>

datatype TimerCallback =
    StartConnectionCb
  | KeepAliveCb
  | PingTimeoutCb
  | EventPollCb
  | WaitSocketCb nat
  | WaitReadyCb nat

record Timer =
  timerId :: nat
  callback :: TimerCallback
  delay :: nat
  repeating :: bool

datatype Report =
    MaxAttemptsReached
  | InitFailed
  | SocketClosed
  | SocketErrored
  | PollFailed ProviderEvent
  | ResubscribeFailed ProviderEvent
  | UnhandledRejection
  | UncaughtException

text \<open>Calls on the collaborators, in the order in which they are made.\<close>

datatype Effect =
    NewWebSocket nat
  | Ping nat
  | Terminate nat
  | NewProvider nat
  | ProviderOn nat ProviderEvent Listener
  | GetBlockNumber
  | GetLogs Filter
  | ListenerCall Listener Log
  | ConsoleError Report

text \<open>
  A polling cycle that waits for the network: for the answer to \<open>getBlockNumber\<close> (line
  152), or for the answer to \<open>getLogs\<close> (line 172) with the current block of the cycle, the
  position in the registry of the subscription being processed, that subscription, and the
  filter queried.
\<close>

datatype PendingCall = AwaitBlockNumber | AwaitLogs int nat Subscription Filter

text \<open>
  The fields of the class (lines 20 to 31), followed by the runtime: \<open>timers\<close> are the
  pending timers, \<open>sockets\<close> the ready states of the sockets created so far (a socket is
  named by its index), \<open>resolved\<close> the state of the promise returned by \<open>connect()\<close>
  (\<open>None\<close> while it is pending, \<open>Some None\<close> once resolved with \<open>null\<close>), \<open>pending\<close>
  the calls of polling cycles that wait for their answer.
  Block numbers are JavaScript numbers holding integers; they are modelled as \<open>int\<close>.
\<close>

record State =
  url :: string
  chainId :: nat
  terminate :: bool
  pingTimeout :: "nat option"
  keepAliveInterval :: "nat option"
  eventPollInterval :: "nat option"
  ws :: "nat option"
  provider :: "nat option"
  subscriptions :: "Subscription list"
  reconnectionAttempts :: nat
  isConnected :: bool
  lastProcessedBlock :: int
  timers :: "Timer list"
  nextTimer :: nat
  sockets :: "ReadyState list"
  nextProvider :: nat
  resolved :: "nat option option"
  pending :: "PendingCall list"
  effects :: "Effect list"

text \<open>
  What the collaborators answer during one stretch: whether the constructor of
  \<open>WebSocketProvider\<close> (line 69) and \<open>_start\<close> (line 79) throw, whether the client reports
  itself ready when line 81 tests it, the results of \<open>getBlockNumber\<close> and \<open>getLogs\<close>,
  whether a listener throws on a log, and the result of the client's own \<open>on\<close>.
\<close>

record External =
  constructorThrows :: bool
  startThrows :: bool
  providerReady :: bool
  blockNumberResult :: "Error + int"
  getLogsResult :: "Filter \<Rightarrow> Error + Log list"
  listenerThrows :: "Listener \<Rightarrow> Log \<Rightarrow> bool"
  onResult :: "nat \<Rightarrow> ProviderEvent \<Rightarrow> Listener \<Rightarrow> Error + nat"

subsection \<open>Runtime primitives\<close>

definition emit :: "Effect \<Rightarrow> State \<Rightarrow> State" where
  "emit e s = s\<lparr>effects := effects s @ [e]\<rparr>"

definition setTimeout :: "TimerCallback \<Rightarrow> nat \<Rightarrow> State \<Rightarrow> State" where
  "setTimeout cb ms s =
     s\<lparr>timers := timers s @ [\<lparr>timerId = nextTimer s, callback = cb, delay = ms, repeating = False\<rparr>],
       nextTimer := Suc (nextTimer s)\<rparr>"

definition setInterval :: "TimerCallback \<Rightarrow> nat \<Rightarrow> State \<Rightarrow> State" where
  "setInterval cb ms s =
     s\<lparr>timers := timers s @ [\<lparr>timerId = nextTimer s, callback = cb, delay = ms, repeating = True\<rparr>],
       nextTimer := Suc (nextTimer s)\<rparr>"

text \<open>\<open>clearTimeout\<close> and \<open>clearInterval\<close>: a handle that is not pending is ignored.\<close>

definition clearTimer :: "nat \<Rightarrow> State \<Rightarrow> State" where
  "clearTimer h s = s\<lparr>timers := filter (\<lambda>t. timerId t \<noteq> h) (timers s)\<rparr>"

text \<open>\<open>if (handle) clearTimeout(handle)\<close>.\<close>

definition clearIfSet :: "nat option \<Rightarrow> State \<Rightarrow> State" where
  "clearIfSet h s = (case h of None \<Rightarrow> s | Some t \<Rightarrow> clearTimer t s)"

text \<open>A promise is settled by the first call of \<open>resolve\<close>; later calls are ignored.\<close>

definition resolve :: "nat option \<Rightarrow> State \<Rightarrow> State" where
  "resolve v s = (if resolved s = None then s\<lparr>resolved := Some v\<rparr> else s)"

subsection \<open>The class\<close>

text \<open>Lines 33 to 46.\<close>

definition constructor :: "string \<Rightarrow> nat \<Rightarrow> State" where
  "constructor u c =
     \<lparr>url = u, chainId = c, terminate = False, pingTimeout = None, keepAliveInterval = None,
      eventPollInterval = None, ws = None, provider = None, subscriptions = [],
      reconnectionAttempts = 0, isConnected = False, lastProcessedBlock = 0,
      timers = [], nextTimer = 0, sockets = [], nextProvider = 0, resolved = None,
      pending = [], effects = []\<rparr>"

text \<open>Lines 127 to 141: the interval is registered here; its body is \<open>keepAliveTick\<close>.\<close>

definition setupKeepAlive :: "State \<Rightarrow> State" where
  "setupKeepAlive s =
     (setInterval KeepAliveCb KEEP_ALIVE_CHECK_INTERVAL s)\<lparr>keepAliveInterval := Some (nextTimer s)\<rparr>"

text \<open>
  Line 138, the body of the timeout. \<open>terminate()\<close> does not throw; a socket that has not
  closed is closing from then on.
\<close>

definition pingTimeoutFired :: "State \<Rightarrow> State" where
  "pingTimeoutFired s =
     (case ws s of
        None \<Rightarrow> s
      | Some w \<Rightarrow>
          emit (Terminate w)
            (s\<lparr>sockets := (if w < length (sockets s) \<and> sockets s ! w \<noteq> CLOSED
                            then (sockets s)[w := CLOSING] else sockets s)\<rparr>))"

text \<open>
  Lines 129 to 139, the body of the interval. \<open>ping()\<close> of the transport throws while the
  socket is still connecting; nothing catches the exception, and line 137 is not reached.
\<close>

definition keepAliveTick :: "State \<Rightarrow> State" where
  "keepAliveTick s =
     (case ws s of
        None \<Rightarrow> s
      | Some w \<Rightarrow>
          if w < length (sockets s) \<and> sockets s ! w = CONNECTING
          then emit (ConsoleError UncaughtException) s
          else
            (let s1 = emit (Ping w) s
             in (setTimeout PingTimeoutCb EXPECTED_PONG_BACK s1)\<lparr>pingTimeout := Some (nextTimer s1)\<rparr>))"

text \<open>Lines 143 to 149: the interval is registered here; its body is \<open>eventPollTick\<close>.\<close>

definition setupEventPolling :: "State \<Rightarrow> State" where
  "setupEventPolling s =
     (setInterval EventPollCb EVENT_POLL_INTERVAL s)\<lparr>eventPollInterval := Some (nextTimer s)\<rparr>"

text \<open>
  Lines 173 to 175: the listener is called on each log in turn; a throwing call ends the loop
  and the exception reaches the \<open>catch\<close> of the subscription. The flag tells whether it threw.
\<close>

fun deliver :: "External \<Rightarrow> Listener \<Rightarrow> Log list \<Rightarrow> State \<Rightarrow> bool \<times> State" where
  "deliver x l [] s = (False, s)"
| "deliver x l (g # gs) s =
     (let s1 = emit (ListenerCall l g) s
      in if listenerThrows x l g then (True, s1) else deliver x l gs s1)"

definition startsWith :: "string \<Rightarrow> string \<Rightarrow> bool" where
  "startsWith str pre = (take (length pre) str = pre)"

text \<open>
  Lines 154 to 177: the body of the \<open>try\<close> inside the loop over the subscriptions. The flag
  tells whether the body threw (\<open>getLogs\<close> raised, or a listener did).
\<close>

definition pollTry :: "External \<Rightarrow> int \<Rightarrow> Subscription \<Rightarrow> State \<Rightarrow> bool \<times> State" where
  "pollTry x currentBlock sub s =
     (if type sub = EventName ''block'' then (False, s\<lparr>lastProcessedBlock := currentBlock\<rparr>)
      else
        (case type sub of
           EventOther n \<Rightarrow> (False, s)
         | EventName a \<Rightarrow>
             if startsWith a ''0x'' then
               (let f = \<lparr>address = a, fromBlock = lastProcessedBlock s + 1, toBlock = currentBlock\<rparr>;
                    s1 = emit (GetLogs f) s
                in case getLogsResult x f of
                     Inl e \<Rightarrow> (True, s1)
                   | Inr logs \<Rightarrow>
                       (case deliver x (listener sub) logs s1 of
                          (True, s2) \<Rightarrow> (True, s2)
                        | (False, s2) \<Rightarrow> (False, s2\<lparr>lastProcessedBlock := currentBlock\<rparr>)))
             else (False, s)))"

text \<open>Lines 154 to 183: the \<open>try\<close> with its \<open>catch\<close>, which reports the error.\<close>

definition pollSubscription :: "External \<Rightarrow> int \<Rightarrow> Subscription \<Rightarrow> State \<Rightarrow> State" where
  "pollSubscription x currentBlock sub s =
     (case pollTry x currentBlock sub s of
        (True, s1) \<Rightarrow> emit (ConsoleError (PollFailed (type sub))) s1
      | (False, s1) \<Rightarrow> s1)"

fun pollLoop :: "External \<Rightarrow> int \<Rightarrow> Subscription list \<Rightarrow> State \<Rightarrow> State" where
  "pollLoop x currentBlock [] s = s"
| "pollLoop x currentBlock (sub # subs) s =
     pollLoop x currentBlock subs (pollSubscription x currentBlock sub s)"

text \<open>
  Lines 151 to 185, when every call of the cycle is answered before anything else happens:
  \<open>pollSubscription\<close> and \<open>pollLoop\<close> above and \<open>pollEvents\<close> here are the source's loop with
  each \<open>await\<close> returning at once. (\<open>uninterrupted_cycle\<close> below shows that this is the run
  of \<open>step\<close> that starts a cycle and then delivers the answers to its calls, one after the
  other.) An error of \<open>getBlockNumber\<close> is not caught: the promise of \<open>pollEvents\<close> is
  rejected and nothing else happens in that cycle.
\<close>

definition pollEvents :: "External \<Rightarrow> State \<Rightarrow> State" where
  "pollEvents x s =
     (let s1 = emit GetBlockNumber s
      in case blockNumberResult x of
           Inl e \<Rightarrow> emit (ConsoleError UnhandledRejection) s1
         | Inr currentBlock \<Rightarrow> pollLoop x currentBlock (subscriptions s1) s1)"

text \<open>
  The same lines 151 to 185, stretch by stretch. Line 152: \<open>getBlockNumber\<close> is called and
  the cycle waits for the answer.
\<close>

definition pollEventsStart :: "State \<Rightarrow> State" where
  "pollEventsStart s = (emit GetBlockNumber s)\<lparr>pending := pending s @ [AwaitBlockNumber]\<rparr>"

text \<open>
  Lines 153 to 172: the loop runs on from position \<open>idx\<close> of the registry, over the
  subscriptions \<open>rest\<close> from there on, until it has to wait for the logs of an address
  subscription or reaches the end of the registry.
\<close>

fun pollEventsFrom :: "int \<Rightarrow> nat \<Rightarrow> Subscription list \<Rightarrow> State \<Rightarrow> State" where
  "pollEventsFrom currentBlock idx [] s = s"
| "pollEventsFrom currentBlock idx (sub # rest) s =
     (if type sub = EventName ''block''
      then pollEventsFrom currentBlock (Suc idx) rest (s\<lparr>lastProcessedBlock := currentBlock\<rparr>)
      else
        (case type sub of
           EventOther n \<Rightarrow> pollEventsFrom currentBlock (Suc idx) rest s
         | EventName a \<Rightarrow>
             if startsWith a ''0x'' then
               (let f = \<lparr>address = a, fromBlock = lastProcessedBlock s + 1, toBlock = currentBlock\<rparr>
                in (emit (GetLogs f) s)\<lparr>pending := pending s @ [AwaitLogs currentBlock idx sub f]\<rparr>)
             else pollEventsFrom currentBlock (Suc idx) rest s))"

text \<open>
  Lines 172 to 183, once \<open>getLogs\<close> has answered the query \<open>f\<close> made for \<open>sub\<close>: the rest of
  the \<open>try\<close>, and the \<open>catch\<close>.
\<close>

definition pollEventsResume :: "External \<Rightarrow> int \<Rightarrow> Subscription \<Rightarrow> Filter \<Rightarrow> State \<Rightarrow> State" where
  "pollEventsResume x currentBlock sub f s =
     (case getLogsResult x f of
        Inl e \<Rightarrow> emit (ConsoleError (PollFailed (type sub))) s
      | Inr logs \<Rightarrow>
          (case deliver x (listener sub) logs s of
             (True, s2) \<Rightarrow> emit (ConsoleError (PollFailed (type sub))) s2
           | (False, s2) \<Rightarrow> s2\<lparr>lastProcessedBlock := currentBlock\<rparr>))"

text \<open>
  The pending call at position \<open>k\<close> is answered and its cycle runs on. The iteration of
  line 153 is over the registry as it is then: entries added meanwhile are visited.
\<close>

definition answer :: "External \<Rightarrow> nat \<Rightarrow> State \<Rightarrow> State" where
  "answer x k s =
     (if k < length (pending s) then
        (let s0 = s\<lparr>pending := take k (pending s) @ drop (Suc k) (pending s)\<rparr>
         in case pending s ! k of
              AwaitBlockNumber \<Rightarrow>
                (case blockNumberResult x of
                   Inl e \<Rightarrow> emit (ConsoleError UnhandledRejection) s0
                 | Inr currentBlock \<Rightarrow> pollEventsFrom currentBlock 0 (subscriptions s0) s0)
            | AwaitLogs currentBlock idx sub f \<Rightarrow>
                (let s1 = pollEventsResume x currentBlock sub f s0
                 in pollEventsFrom currentBlock (Suc idx) (drop (Suc idx) (subscriptions s1)) s1))
      else s)"

text \<open>Lines 144 to 148, the body of the interval: the cycle is started and not waited for.\<close>

definition eventPollTick :: "State \<Rightarrow> State" where
  "eventPollTick s = (if provider s \<noteq> None then pollEventsStart s else s)"

text \<open>Lines 187 to 191.\<close>

definition cleanupConnection :: "State \<Rightarrow> State" where
  "cleanupConnection s =
     (let s1 = clearIfSet (keepAliveInterval s) s;
          s2 = clearIfSet (pingTimeout s1) s1
      in clearIfSet (eventPollInterval s2) s2)"

text \<open>
  The client's own \<open>on\<close>: the call is made, and its result (the client itself, or an
  error) is what the collaborator answers.
\<close>

definition originalOn ::
  "External \<Rightarrow> nat \<Rightarrow> ProviderEvent \<Rightarrow> Listener \<Rightarrow> State \<Rightarrow> (Error + nat) \<times> State" where
  "originalOn x p eventName l s = (onResult x p eventName l, emit (ProviderOn p eventName l) s)"

text \<open>
  Lines 193 to 203: the body of the \<open>try\<close> (\<open>this.provider?.on\<close> does nothing when there
  is no provider; the flag tells whether the call threw), then the \<open>try\<close> with its
  \<open>catch\<close>, then the loop.
\<close>

definition resubscribeTry :: "External \<Rightarrow> Subscription \<Rightarrow> State \<Rightarrow> bool \<times> State" where
  "resubscribeTry x sub s =
     (case provider s of
        None \<Rightarrow> (False, s)
      | Some p \<Rightarrow>
          (case originalOn x p (type sub) (listener sub) s of
             (Inl e, s1) \<Rightarrow> (True, s1)
           | (Inr r, s1) \<Rightarrow> (False, s1)))"

definition resubscribeOne :: "External \<Rightarrow> Subscription \<Rightarrow> State \<Rightarrow> State" where
  "resubscribeOne x sub s =
     (case resubscribeTry x sub s of
        (True, s1) \<Rightarrow> emit (ConsoleError (ResubscribeFailed (type sub))) s1
      | (False, s1) \<Rightarrow> s1)"

fun resubscribeLoop :: "External \<Rightarrow> Subscription list \<Rightarrow> State \<Rightarrow> State" where
  "resubscribeLoop x [] s = s"
| "resubscribeLoop x (sub # subs) s = resubscribeLoop x subs (resubscribeOne x sub s)"

definition resubscribe :: "External \<Rightarrow> State \<Rightarrow> State" where
  "resubscribe x s = resubscribeLoop x (subscriptions s) s"

text \<open>Lines 50 to 60: \<open>startConnection\<close> up to the creation of the socket.\<close>

definition startConnection :: "State \<Rightarrow> State" where
  "startConnection s =
     (if reconnectionAttempts s \<ge> MAX_RECONNECTION_ATTEMPTS then
        resolve None ((emit (ConsoleError MaxAttemptsReached) s)\<lparr>terminate := True\<rparr>)
      else
        (emit (NewWebSocket (length (sockets s))) s)
          \<lparr>ws := Some (length (sockets s)), sockets := sockets s @ [CONNECTING]\<rparr>)"

text \<open>Lines 89 to 97: the \<open>catch\<close> of the open handler.\<close>

definition initFailed :: "State \<Rightarrow> State" where
  "initFailed s =
     (let s2 = cleanupConnection (emit (ConsoleError InitFailed) s)
      in setTimeout StartConnectionCb RECONNECTION_DELAY
           (s2\<lparr>reconnectionAttempts := reconnectionAttempts s2 + 1\<rparr>))"

text \<open>
  Lines 81 to 88: the test of the second loop and what follows it. While the client is not
  ready the handler sleeps one second and tests again.
\<close>

definition waitReady :: "External \<Rightarrow> nat \<Rightarrow> State \<Rightarrow> State" where
  "waitReady x wsp s =
     (if providerReady x then
        (let s1 = resubscribe x (s\<lparr>provider := Some wsp\<rparr>)
         in resolve (provider s1) s1)
      else setTimeout (WaitReadyCb wsp) 1000 s)"

text \<open>
  Lines 74 to 79: the test of the first loop, on the ready state of \<open>this.ws\<close> (the socket
  created last, which need not be the one that has opened), then \<open>_start\<close>. While that socket
  is not open the handler sleeps one second and tests again.
\<close>

definition socketIsOpen :: "State \<Rightarrow> bool" where
  "socketIsOpen s =
     (case ws s of None \<Rightarrow> False | Some w \<Rightarrow> w < length (sockets s) \<and> sockets s ! w = OPEN)"

definition waitSocket :: "External \<Rightarrow> nat \<Rightarrow> State \<Rightarrow> State" where
  "waitSocket x wsp s =
     (if socketIsOpen s then (if startThrows x then initFailed s else waitReady x wsp s)
      else setTimeout (WaitSocketCb wsp) 1000 s)"

text \<open>Lines 62 to 73: the handler of \<open>open\<close>, up to the first loop.\<close>

definition openHandler :: "External \<Rightarrow> State \<Rightarrow> State" where
  "openHandler x s =
     (let s1 = setupEventPolling (setupKeepAlive (s\<lparr>reconnectionAttempts := 0, isConnected := True\<rparr>))
      in if constructorThrows x then initFailed s1
         else waitSocket x (nextProvider s1)
                ((emit (NewProvider (nextProvider s1)) s1)\<lparr>nextProvider := Suc (nextProvider s1)\<rparr>))"

text \<open>Lines 100 to 111: the handler of \<open>close\<close>.\<close>

definition closeHandler :: "State \<Rightarrow> State" where
  "closeHandler s =
     (let s1 = cleanupConnection ((emit (ConsoleError SocketClosed) s)\<lparr>isConnected := False\<rparr>)
      in if \<not> terminate s1 then
           setTimeout StartConnectionCb RECONNECTION_DELAY
             (s1\<lparr>reconnectionAttempts := reconnectionAttempts s1 + 1\<rparr>)
         else s1)"

text \<open>Lines 113 to 115 and 117 to 120: the handlers of \<open>error\<close> and \<open>pong\<close>.\<close>

definition errorHandler :: "State \<Rightarrow> State" where
  "errorHandler s = emit (ConsoleError SocketErrored) s"

definition pongHandler :: "State \<Rightarrow> State" where
  "pongHandler s = clearIfSet (pingTimeout s) s"

text \<open>Lines 48 to 49 and 123: \<open>connect()\<close> creates the promise and starts the first attempt.\<close>

definition connect :: "State \<Rightarrow> State" where
  "connect s = startConnection (s\<lparr>resolved := None\<rparr>)"

text \<open>
  Lines 221 to 225: the \<open>on\<close> installed on the client that \<open>connect()\<close> returned. The native
  \<open>on\<close> is called after the subscription has been added; its result, an error included, is
  the result of the call.
\<close>

definition wrappedOn ::
  "External \<Rightarrow> nat \<Rightarrow> ProviderEvent \<Rightarrow> Listener \<Rightarrow> State \<Rightarrow> (Error + nat) \<times> State" where
  "wrappedOn x p eventName l s =
     originalOn x p eventName l
       (s\<lparr>subscriptions := subscriptions s @ [\<lparr>type = eventName, listener = l\<rparr>]\<rparr>)"

subsection \<open>Notifications\<close>

text \<open>
  The notifications the runtime delivers to one instance. A socket emits \<open>open\<close> only while
  it is connecting, and \<open>close\<close> once. A timer fires only while it is pending, and a timer
  set by \<open>setTimeout\<close> fires once. \<open>Answer k\<close> is the answer of the client to the pending
  call at position \<open>k\<close>. \<open>ClientOn\<close> is a call by client code of \<open>on\<close> of the client that
  \<open>connect()\<close> returned.
\<close>

datatype Event =
    SocketOpen nat
  | SocketClose nat
  | SocketError nat
  | SocketPong nat
  | TimerFires nat
  | Answer nat
  | ClientOn ProviderEvent Listener

definition runCallback :: "External \<Rightarrow> TimerCallback \<Rightarrow> State \<Rightarrow> State" where
  "runCallback x cb s =
     (case cb of
        StartConnectionCb \<Rightarrow> startConnection s
      | KeepAliveCb \<Rightarrow> keepAliveTick s
      | PingTimeoutCb \<Rightarrow> pingTimeoutFired s
      | EventPollCb \<Rightarrow> eventPollTick s
      | WaitSocketCb wsp \<Rightarrow> waitSocket x wsp s
      | WaitReadyCb wsp \<Rightarrow> waitReady x wsp s)"

definition fireTimer :: "External \<Rightarrow> nat \<Rightarrow> State \<Rightarrow> State" where
  "fireTimer x h s =
     (case find (\<lambda>t. timerId t = h) (timers s) of
        None \<Rightarrow> s
      | Some t \<Rightarrow> runCallback x (callback t) (if repeating t then s else clearTimer h s))"

fun step :: "State \<Rightarrow> External \<times> Event \<Rightarrow> State" where
  "step s (x, SocketOpen i) =
     (if i < length (sockets s) \<and> sockets s ! i = CONNECTING
      then openHandler x (s\<lparr>sockets := (sockets s)[i := OPEN]\<rparr>) else s)"
| "step s (x, SocketClose i) =
     (if i < length (sockets s) \<and> sockets s ! i \<noteq> CLOSED
      then closeHandler (s\<lparr>sockets := (sockets s)[i := CLOSED]\<rparr>) else s)"
| "step s (x, SocketError i) = errorHandler s"
| "step s (x, SocketPong i) = pongHandler s"
| "step s (x, TimerFires h) = fireTimer x h s"
| "step s (x, Answer k) = answer x k s"
| "step s (x, ClientOn eventName l) =
     (case resolved s of
        Some (Some p) \<Rightarrow> snd (wrappedOn x p eventName l s)
      | _ \<Rightarrow> s)"

fun run :: "State \<Rightarrow> (External \<times> Event) list \<Rightarrow> State" where
  "run s [] = s"
| "run s (e # es) = run (step s e) es"

subsection \<open>Observations and scenarios\<close>

text \<open>The retry timers that are pending: delayed calls of \<open>startConnection\<close>.\<close>

definition pendingRetries :: "State \<Rightarrow> Timer list" where
  "pendingRetries s = filter (\<lambda>t. callback t = StartConnectionCb) (timers s)"

text \<open>The number of sockets constructed so far, read from the calls made.\<close>

fun newSockets :: "Effect list \<Rightarrow> nat list" where
  "newSockets [] = []"
| "newSockets (NewWebSocket i # es) = i # newSockets es"
| "newSockets (e # es) = newSockets es"

definition socketsCreated :: "State \<Rightarrow> nat" where
  "socketsCreated s = length (newSockets (effects s))"

text \<open>The \<open>getLogs\<close> queries, the listener calls and the subscribe calls among the calls made.\<close>

fun logQueries :: "Effect list \<Rightarrow> Filter list" where
  "logQueries [] = []"
| "logQueries (GetLogs f # es) = f # logQueries es"
| "logQueries (e # es) = logQueries es"

fun listenerCalls :: "Effect list \<Rightarrow> (Listener \<times> Log) list" where
  "listenerCalls [] = []"
| "listenerCalls (ListenerCall l g # es) = (l, g) # listenerCalls es"
| "listenerCalls (e # es) = listenerCalls es"

fun subscribeCalls :: "Effect list \<Rightarrow> (nat \<times> ProviderEvent \<times> Listener) list" where
  "subscribeCalls [] = []"
| "subscribeCalls (ProviderOn p t l # es) = (p, t, l) # subscribeCalls es"
| "subscribeCalls (e # es) = subscribeCalls es"


text \<open>The address selectors of a registry, in registry order: the strings that start with \<open>0x\<close>.\<close>

fun addressSelectors :: "Subscription list \<Rightarrow> string list" where
  "addressSelectors [] = []"
| "addressSelectors (sub # subs) =
     (case type sub of
        EventName a \<Rightarrow> (if startsWith a ''0x'' then a # addressSelectors subs else addressSelectors subs)
      | EventOther n \<Rightarrow> addressSelectors subs)"

text \<open>The logs a listener is called on: those before the first call that throws, and that one.\<close>

fun delivered :: "External \<Rightarrow> Listener \<Rightarrow> Log list \<Rightarrow> Log list" where
  "delivered x l [] = []"
| "delivered x l (g # gs) = (if listenerThrows x l g then [g] else g # delivered x l gs)"

text \<open>Whether a listener throws on one of the logs it is handed.\<close>

fun anyThrows :: "External \<Rightarrow> Listener \<Rightarrow> Log list \<Rightarrow> bool" where
  "anyThrows x l [] = False"
| "anyThrows x l (g # gs) = (if listenerThrows x l g then True else anyThrows x l gs)"

text \<open>
  Whether handling an address subscription with listener \<open>l\<close> raises an error when its query
  is \<open>f\<close>: the query raises, or the listener throws on one of the logs returned.
\<close>

definition raises :: "External \<Rightarrow> Listener \<Rightarrow> Filter \<Rightarrow> bool" where
  "raises x l f = (case getLogsResult x f of Inl e \<Rightarrow> True | Inr logs \<Rightarrow> anyThrows x l logs)"

text \<open>
  The calls of a replay of the registry \<open>subs\<close> on client \<open>p\<close>: one call of \<open>on\<close> for each
  entry, followed by the report of its error when it throws.
\<close>

fun replayCalls :: "External \<Rightarrow> nat \<Rightarrow> Subscription list \<Rightarrow> Effect list" where
  "replayCalls x p [] = []"
| "replayCalls x p (sub # subs) =
     ProviderOn p (type sub) (listener sub) #
       (case onResult x p (type sub) (listener sub) of
          Inl e \<Rightarrow> ConsoleError (ResubscribeFailed (type sub)) # replayCalls x p subs
        | Inr r \<Rightarrow> replayCalls x p subs)"

text \<open>Kinds of notification.\<close>

fun opens :: "External \<times> Event \<Rightarrow> bool" where
  "opens (x, SocketOpen i) = True"
| "opens (x, ev) = False"

fun isAnswer :: "Event \<Rightarrow> bool" where
  "isAnswer (Answer k) = True"
| "isAnswer ev = False"

fun isClientOn :: "External \<times> Event \<Rightarrow> bool" where
  "isClientOn (x, ClientOn t l) = True"
| "isClientOn (x, ev) = False"

text \<open>
  A failed connection attempt: socket \<open>i\<close> reports an error and closes without having
  opened, and the retry timer set by the close handler fires. In a run that consists of such
  attempts only, the retry timer of attempt \<open>i\<close> is timer \<open>i\<close>.
\<close>

definition failedAttempt :: "External \<Rightarrow> nat \<Rightarrow> (External \<times> Event) list" where
  "failedAttempt x i = [(x, SocketError i), (x, SocketClose i), (x, TimerFires i)]"

text \<open>
  A polling cycle that nothing interrupts: the poll timer \<open>h\<close> fires and the next \<open>n\<close>
  notifications are the answers to the calls of the cycle, which is at position \<open>k\<close> among the
  pending calls.
\<close>

definition pollCycle :: "External \<Rightarrow> nat \<Rightarrow> nat \<Rightarrow> nat \<Rightarrow> (External \<times> Event) list" where
  "pollCycle x h k n = (x, TimerFires h) # replicate n (x, Answer k)"

text \<open>The watermark before each notification of a run, and after the last.\<close>

fun watermarks :: "State \<Rightarrow> (External \<times> Event) list \<Rightarrow> int list" where
  "watermarks s [] = [lastProcessedBlock s]"
| "watermarks s (e # es) = lastProcessedBlock s # watermarks (step s e) es"

text \<open>The block numbers that \<open>getBlockNumber\<close> would return at the answers of a run.\<close>

fun polledBlock :: "External \<times> Event \<Rightarrow> int list" where
  "polledBlock (x, Answer k) = (case blockNumberResult x of Inl e \<Rightarrow> [] | Inr b \<Rightarrow> [b])"
| "polledBlock (x, ev) = []"

definition blockNumbers :: "(External \<times> Event) list \<Rightarrow> int list" where
  "blockNumbers es = concat (map polledBlock es)"

text \<open>
  The current block of the polling cycle that waits for logs, or else the watermark: the
  highest value the calls pending now can give the watermark.
\<close>

definition cycleBlock :: "State \<Rightarrow> int" where
  "cycleBlock s =
     (case pending s of
        AwaitLogs currentBlock idx sub f # ps \<Rightarrow> currentBlock
      | _ \<Rightarrow> lastProcessedBlock s)"

text \<open>Whether at most one polling cycle is under way at every moment of a run.\<close>

fun oneAtATime :: "State \<Rightarrow> (External \<times> Event) list \<Rightarrow> bool" where
  "oneAtATime s [] = (length (pending s) \<le> 1)"
| "oneAtATime s (e # es) = (length (pending s) \<le> 1 \<and> oneAtATime (step s e) es)"

text \<open>
  A state from which nothing can restart the connection: the instance is terminated, the
  promise is resolved with \<open>null\<close>, no timer and no call is pending and every socket has
  closed.
\<close>

definition halted :: "State \<Rightarrow> bool" where
  "halted s =
     (terminate s \<and> timers s = [] \<and> pending s = [] \<and> resolved s = Some None \<and>
      list_all (\<lambda>r. r = CLOSED) (sockets s))"

text \<open>
  The states of a run in which no socket opens. After \<open>k\<close> failed attempts either attempt
  \<open>k\<close> is under way (socket \<open>k\<close> is connecting, the earlier sockets have closed, no timer is
  pending), or the retry after the \<open>k\<close>-th failure is pending (all \<open>k\<close> sockets have closed),
  or the instance has given up after the last allowed attempt.
\<close>

definition idle :: "State \<Rightarrow> bool" where
  "idle s =
     (\<not> terminate s \<and> resolved s = None \<and> pending s = [] \<and> keepAliveInterval s = None \<and>
      pingTimeout s = None \<and> eventPollInterval s = None)"

definition attempting :: "nat \<Rightarrow> State \<Rightarrow> bool" where
  "attempting k s =
     (idle s \<and> timers s = [] \<and> reconnectionAttempts s = k \<and> k < MAX_RECONNECTION_ATTEMPTS \<and>
      sockets s = replicate k CLOSED @ [CONNECTING] \<and> newSockets (effects s) = [0..<Suc k])"

definition retrying :: "nat \<Rightarrow> State \<Rightarrow> bool" where
  "retrying k s =
     (idle s \<and>
      (\<exists>h. timers s = [\<lparr>timerId = h, callback = StartConnectionCb,
                            delay = RECONNECTION_DELAY, repeating = False\<rparr>]) \<and>
      reconnectionAttempts s = k \<and> k \<le> MAX_RECONNECTION_ATTEMPTS \<and>
      sockets s = replicate k CLOSED \<and> newSockets (effects s) = [0..<k])"

definition givenUp :: "State \<Rightarrow> bool" where
  "givenUp s =
     (halted s \<and> sockets s = replicate MAX_RECONNECTION_ATTEMPTS CLOSED \<and>
      newSockets (effects s) = [0..<MAX_RECONNECTION_ATTEMPTS])"

definition failing :: "State \<Rightarrow> bool" where
  "failing s = ((\<exists>k. attempting k s) \<or> (\<exists>k. retrying k s) \<or> givenUp s)"

text \<open>
  Answers of the collaborators used in the scenarios below: \<open>quiet\<close> answers every call
  without an error, the client being ready at once and the current block being 5; the others
  differ from it in one answer.
\<close>

definition quiet :: External where
  "quiet = \<lparr>constructorThrows = False, startThrows = False, providerReady = True,
             blockNumberResult = Inr 5, getLogsResult = (\<lambda>f. Inr []),
             listenerThrows = (\<lambda>l g. False), onResult = (\<lambda>p t l. Inr p)\<rparr>"

definition initFails :: External where
  "initFails = quiet\<lparr>constructorThrows := True\<rparr>"

definition blockAt :: "int \<Rightarrow> External" where
  "blockAt b = quiet\<lparr>blockNumberResult := Inr b\<rparr>"

definition returns :: "Log list \<Rightarrow> External" where
  "returns gs = quiet\<lparr>getLogsResult := (\<lambda>f. Inr gs)\<rparr>"

definition throwsOn :: "Log \<Rightarrow> External" where
  "throwsOn g = (returns [10, 11])\<lparr>listenerThrows := (\<lambda>l g'. g' = g)\<rparr>"

definition failsFor :: "string \<Rightarrow> External" where
  "failsFor a =
     quiet\<lparr>getLogsResult := (\<lambda>f. if address f = a then Inl (Error ''query failed'') else Inr [7])\<rparr>"

definition notReady :: External where
  "notReady = quiet\<lparr>providerReady := False\<rparr>"

definition onThrowsFor :: "string \<Rightarrow> External" where
  "onThrowsFor a =
     quiet\<lparr>onResult := (\<lambda>p t l. if t = EventName a then Inl (Error ''subscribe failed'') else Inr p)\<rparr>"

text \<open>
  States used in the scenarios: an instance on which \<open>connect()\<close> has been called; the same
  after its first socket has opened and the client has become ready (timer 0 is then the
  keep-alive interval and timer 1 the poll interval); and the latter after client code has
  subscribed to one address, to two addresses, or to \<open>block\<close>.
\<close>

definition node :: State where
  "node = connect (constructor ''wss://node'' 1)"

definition firstOpen :: State where
  "firstOpen = step node (quiet, SocketOpen 0)"

definition oneAddress :: State where
  "oneAddress = step firstOpen (quiet, ClientOn (EventName ''0xA'') 1)"

definition twoAddresses :: State where
  "twoAddresses = step oneAddress (quiet, ClientOn (EventName ''0xB'') 2)"

definition blockOnly :: State where
  "blockOnly = step firstOpen (quiet, ClientOn (EventName ''block'') 1)"

text \<open>
  One address is subscribed, the poll timer has fired and \<open>getBlockNumber\<close> has answered 5:
  the cycle waits for the logs of \<open>0xA\<close> from block 1 to block 5.
\<close>

definition awaitingLogs :: State where
  "awaitingLogs = run oneAddress [(quiet, TimerFires 1), (quiet, Answer 0)]"

text \<open>
  The client has subscribed to \<open>block\<close> and to an address (or to two addresses), socket 0
  has closed and the retry timer (timer 2) has fired: socket 1 is connecting.
\<close>

definition reconnecting :: State where
  "reconnecting =
     run (step blockOnly (quiet, ClientOn (EventName ''0xABC'') 2))
       [(quiet, SocketClose 0), (quiet, TimerFires 2)]"

definition reconnectingTwo :: State where
  "reconnectingTwo = run twoAddresses [(quiet, SocketClose 0), (quiet, TimerFires 2)]"


text \<open>
  Ten connection attempts that fail before the socket opens, and ten that fail in the open
  handler (the retry timer of attempt \<open>i\<close> is then timer \<open>3 * i + 2\<close>).
\<close>

definition tenFailures :: "(External \<times> Event) list" where
  "tenFailures = concat (map (failedAttempt quiet) [0..<10])"

definition tenInitFailures :: "(External \<times> Event) list" where
  "tenInitFailures =
     concat (map (\<lambda>i. [(initFails, SocketOpen i), (quiet, TimerFires (3 * i + 2))]) [0..<10])"

section \<open>Proofs\<close>

subsection \<open>Unfolding the handlers\<close>

lemmas handler_defs = connect_def constructor_def
    startConnection_def closeHandler_def errorHandler_def emit_def cleanupConnection_def clearIfSet_def
    setTimeout_def setInterval_def fireTimer_def clearTimer_def runCallback_def resolve_def openHandler_def
    waitSocket_def waitReady_def initFailed_def socketIsOpen_def
    setupKeepAlive_def setupEventPolling_def pongHandler_def keepAliveTick_def pingTimeoutFired_def
    eventPollTick_def pollEventsStart_def pollEventsResume_def answer_def
    pollEvents_def pollSubscription_def pollTry_def resubscribe_def resubscribeOne_def
    resubscribeTry_def originalOn_def wrappedOn_def startsWith_def

lemmas const_defs = MAX_RECONNECTION_ATTEMPTS_def RECONNECTION_DELAY_def EXPECTED_PONG_BACK_def
   KEEP_ALIVE_CHECK_INTERVAL_def EVENT_POLL_INTERVAL_def

lemmas scenario_defs = node_def firstOpen_def oneAddress_def twoAddresses_def blockOnly_def
   awaitingLogs_def pollCycle_def notReady_def quiet_def initFails_def blockAt_def returns_def throwsOn_def failsFor_def onThrowsFor_def

subsection \<open>Reading the calls made\<close>

lemma newSockets_append: "newSockets (xs @ ys) = newSockets xs @ newSockets ys"
  by (induction xs rule: newSockets.induct) simp_all

lemma logQueries_append: "logQueries (xs @ ys) = logQueries xs @ logQueries ys"
  by (induction xs rule: logQueries.induct) simp_all

lemma listenerCalls_append: "listenerCalls (xs @ ys) = listenerCalls xs @ listenerCalls ys"
  by (induction xs rule: listenerCalls.induct) simp_all

lemma subscribeCalls_append: "subscribeCalls (xs @ ys) = subscribeCalls xs @ subscribeCalls ys"
  by (induction xs rule: subscribeCalls.induct) simp_all


lemma logQueries_calls: "logQueries (map (ListenerCall l) gs) = []"
  by (induction gs) simp_all

lemma listenerCalls_calls: "listenerCalls (map (ListenerCall l) gs) = map (Pair l) gs"
  by (induction gs) simp_all

subsection \<open>Timers and runs\<close>

lemma clearIfSet_eq:
  "clearIfSet h s =
     s\<lparr>timers := (case h of None \<Rightarrow> timers s | Some t \<Rightarrow> filter (\<lambda>u. timerId u \<noteq> t) (timers s))\<rparr>"
  by (cases h) (simp_all add: clearIfSet_def clearTimer_def)




lemma run_append: "run s (es @ fs) = run (run s es) fs"
  by (induction es arbitrary: s) simp_all

subsection \<open>Reconnection\<close>

lemma update_closed: "list_all (\<lambda>r. r = CLOSED) xs \<Longrightarrow> xs[i := CLOSED] = xs"
  by (induction xs arbitrary: i) (auto split: nat.splits)

lemma halted_step:
  assumes "halted s"
  shows "halted (step s e) \<and> sockets (step s e) = sockets s \<and>
         newSockets (effects (step s e)) = newSockets (effects s)"
proof -
  obtain x ev where e: "e = (x, ev)" by (cases e)
  have closed: "\<And>i. i < length (sockets s) \<Longrightarrow> sockets s ! i = CLOSED"
    using assms by (simp add: halted_def list_all_length)
  show ?thesis
  proof (cases ev)
    case (SocketOpen i)
    then show ?thesis using assms e closed by auto
  next
    case (SocketClose i)
    then show ?thesis using assms e closed by auto
  next
    case (SocketError i)
    then show ?thesis using assms e
      by (simp add: halted_def errorHandler_def emit_def newSockets_append)
  next
    case (SocketPong i)
    then show ?thesis using assms e
      by (simp add: halted_def pongHandler_def clearIfSet_eq split: option.splits)
  next
    case (TimerFires h)
    then show ?thesis using assms e by (simp add: halted_def fireTimer_def)
  next
    case (Answer k)
    then show ?thesis using assms e by (simp add: halted_def answer_def)
  next
    case (ClientOn t l)
    then show ?thesis using assms e by (simp add: halted_def)
  qed
qed

lemma halted_run:
  "halted s \<Longrightarrow>
     halted (run s es) \<and> sockets (run s es) = sockets s \<and>
     newSockets (effects (run s es)) = newSockets (effects s)"
proof (induction es arbitrary: s)
  case Nil
  then show ?case by simp
next
  case (Cons e es)
  from halted_step[OF Cons.prems, of e] Cons.IH[of "step s e"] show ?case by simp
qed

lemma halted_close:
  "halted s \<Longrightarrow> sockets (closeHandler s) = sockets s \<and> timers (closeHandler s) = []"
  by (simp add: halted_def closeHandler_def cleanupConnection_def clearIfSet_eq emit_def Let_def
        split: option.splits)

lemma close_last: "(replicate k CLOSED @ [CONNECTING])[k := CLOSED] = replicate (Suc k) CLOSED"
  by (simp add: list_update_append replicate_append_same)

lemma attempting_connect: "attempting 0 (connect (constructor u c))"
  by (simp add: attempting_def idle_def connect_def constructor_def startConnection_def emit_def
        MAX_RECONNECTION_ATTEMPTS_def)

lemma attempting_close:
  assumes "attempting k s"
  shows "retrying (Suc k) (step s (x, SocketClose k))"
  using assms
  by (simp add: attempting_def retrying_def idle_def closeHandler_def cleanupConnection_def
        clearIfSet_eq emit_def Let_def setTimeout_def close_last newSockets_append nth_append)

lemma attempting_other_close:
  assumes "attempting k s" and "i \<noteq> k"
  shows "step s (x, SocketClose i) = s"
  using assms by (auto simp add: attempting_def nth_append)

lemma retrying_close:
  assumes "retrying k s"
  shows "step s (x, SocketClose i) = s"
  using assms by (auto simp add: retrying_def)

lemma retrying_fire:
  assumes "retrying k s"
  shows "step s (x, TimerFires h) = s \<or> attempting k (step s (x, TimerFires h)) \<or>
         givenUp (step s (x, TimerFires h))"
proof -
  obtain t where t: "timers s = [\<lparr>timerId = t, callback = StartConnectionCb,
                            delay = RECONNECTION_DELAY, repeating = False\<rparr>]"
    using assms by (auto simp: retrying_def)
  show ?thesis
  proof (cases "h = t")
    case False
    then show ?thesis using t by (simp add: fireTimer_def)
  next
    case True
    show ?thesis
    proof (cases "k < MAX_RECONNECTION_ATTEMPTS")
      case True
      then have "attempting k (step s (x, TimerFires h))"
        using assms t \<open>h = t\<close>
        by (simp add: retrying_def attempting_def idle_def fireTimer_def clearTimer_def
              runCallback_def startConnection_def emit_def newSockets_append)
      then show ?thesis by blast
    next
      case False
      then have "k = MAX_RECONNECTION_ATTEMPTS"
        using assms by (simp add: retrying_def)
      then have "givenUp (step s (x, TimerFires h))"
        using assms t \<open>h = t\<close>
        by (simp add: retrying_def givenUp_def halted_def idle_def fireTimer_def clearTimer_def
              runCallback_def startConnection_def resolve_def emit_def newSockets_append
              list_all_length)
      then show ?thesis by blast
    qed
  qed
qed

lemma idle_quiet_step:
  assumes "idle s" and "ev = SocketError i \<or> ev = SocketPong i \<or> ev = Answer i \<or> ev = ClientOn t l"
  shows "idle (step s (x, ev)) \<and> timers (step s (x, ev)) = timers s \<and>
         reconnectionAttempts (step s (x, ev)) = reconnectionAttempts s \<and>
         sockets (step s (x, ev)) = sockets s \<and>
         newSockets (effects (step s (x, ev))) = newSockets (effects s)"
  using assms
  by (auto simp add: idle_def errorHandler_def emit_def pongHandler_def clearIfSet_eq answer_def
        newSockets_append)

lemma failing_step:
  assumes "failing s" and "\<not> opens e"
  shows "failing (step s e)"
proof -
  obtain x ev where e: "e = (x, ev)" by (cases e)
  consider (a) k where "attempting k s" | (r) k where "retrying k s" | (g) "givenUp s"
    using assms(1) by (auto simp: failing_def)
  then show ?thesis
  proof cases
    case g
    then show ?thesis using halted_step[of s e]
      by (simp add: failing_def givenUp_def)
  next
    case a
    then have i: "idle s" by (simp add: attempting_def)
    show ?thesis
    proof (cases ev)
      case (SocketOpen i)
      then show ?thesis using assms(2) e by simp
    next
      case (SocketClose i)
      then show ?thesis
        using a attempting_close[OF a, of x] attempting_other_close[OF a, of i x] e
        by (cases "i = k") (auto simp: failing_def)
    next
      case (TimerFires h)
      then show ?thesis using a e assms(1) by (simp add: attempting_def fireTimer_def)
    next
      case (SocketError j)
      then show ?thesis using a e idle_quiet_step[OF i, of ev j _ _ x]
        by (auto simp: failing_def attempting_def)
    next
      case (SocketPong j)
      then show ?thesis using a e idle_quiet_step[OF i, of ev j _ _ x]
        by (auto simp: failing_def attempting_def)
    next
      case (Answer j)
      then show ?thesis using a e idle_quiet_step[OF i, of ev j _ _ x]
        by (auto simp: failing_def attempting_def)
    next
      case (ClientOn t l)
      then show ?thesis using a e idle_quiet_step[OF i, of ev _ t l x]
        by (auto simp: failing_def attempting_def)
    qed
  next
    case r
    then have i: "idle s" by (simp add: retrying_def)
    show ?thesis
    proof (cases ev)
      case (SocketOpen i)
      then show ?thesis using assms(2) e by simp
    next
      case (SocketClose i)
      then show ?thesis using assms(1) retrying_close[OF r, of x i] e by simp
    next
      case (TimerFires h)
      then show ?thesis using assms(1) retrying_fire[OF r, of x h] e
        by (auto simp: failing_def)
    next
      case (SocketError j)
      then show ?thesis using r e idle_quiet_step[OF i, of ev j _ _ x]
        by (auto simp: failing_def retrying_def)
    next
      case (SocketPong j)
      then show ?thesis using r e idle_quiet_step[OF i, of ev j _ _ x]
        by (auto simp: failing_def retrying_def)
    next
      case (Answer j)
      then show ?thesis using r e idle_quiet_step[OF i, of ev j _ _ x]
        by (auto simp: failing_def retrying_def)
    next
      case (ClientOn t l)
      then show ?thesis using r e idle_quiet_step[OF i, of ev _ t l x]
        by (auto simp: failing_def retrying_def)
    qed
  qed
qed

lemma failing_run:
  "failing s \<Longrightarrow> list_all (\<lambda>e. \<not> opens e) es \<Longrightarrow> failing (run s es)"
  by (induction es arbitrary: s) (simp_all add: failing_step)


lemma failed_attempt_retry:
  assumes "attempting k s" and "nextTimer s = k" and "Suc k < MAX_RECONNECTION_ATTEMPTS"
  shows "attempting (Suc k) (run s (failedAttempt x k)) \<and> nextTimer (run s (failedAttempt x k)) = Suc k"
  using assms
  by (simp add: attempting_def idle_def failedAttempt_def errorHandler_def closeHandler_def
        cleanupConnection_def clearIfSet_eq emit_def Let_def setTimeout_def fireTimer_def
        clearTimer_def runCallback_def startConnection_def close_last newSockets_append
        replicate_append_same nth_append)

lemma failed_attempt_last:
  assumes "attempting k s" and "nextTimer s = k" and "Suc k = MAX_RECONNECTION_ATTEMPTS"
  shows "givenUp (run s (failedAttempt x k))"
  using assms
  by (simp add: attempting_def idle_def givenUp_def halted_def failedAttempt_def errorHandler_def
        closeHandler_def cleanupConnection_def clearIfSet_eq emit_def Let_def setTimeout_def
        fireTimer_def clearTimer_def runCallback_def startConnection_def resolve_def close_last
        newSockets_append list_all_length nth_append)

lemma failed_attempts_below_ceiling:
  "k < MAX_RECONNECTION_ATTEMPTS \<Longrightarrow>
     attempting k (run (connect (constructor u c)) (concat (map (\<lambda>i. failedAttempt (xs i) i) [0..<k]))) \<and>
     nextTimer (run (connect (constructor u c)) (concat (map (\<lambda>i. failedAttempt (xs i) i) [0..<k]))) = k"
proof (induction k)
  case 0
  show ?case using attempting_connect[of u c]
    by (simp add: connect_def constructor_def startConnection_def emit_def MAX_RECONNECTION_ATTEMPTS_def)
next
  case (Suc k)
  then have "attempting k (run (connect (constructor u c)) (concat (map (\<lambda>i. failedAttempt (xs i) i) [0..<k])))"
    and "nextTimer (run (connect (constructor u c)) (concat (map (\<lambda>i. failedAttempt (xs i) i) [0..<k]))) = k"
    by simp_all
  from failed_attempt_retry[OF this Suc.prems, of "xs k"] show ?case
    by (simp add: run_append)
qed

lemma ten_failed_attempts:
  "givenUp (run (connect (constructor u c))
      (concat (map (\<lambda>i. failedAttempt (xs i) i) [0..<MAX_RECONNECTION_ATTEMPTS])))"
proof -
  obtain k where k: "MAX_RECONNECTION_ATTEMPTS = Suc k"
    by (simp add: MAX_RECONNECTION_ATTEMPTS_def eval_nat_numeral)
  have "attempting k (run (connect (constructor u c)) (concat (map (\<lambda>i. failedAttempt (xs i) i) [0..<k])))"
    and "nextTimer (run (connect (constructor u c)) (concat (map (\<lambda>i. failedAttempt (xs i) i) [0..<k]))) = k"
    using failed_attempts_below_ceiling[of k u c xs] k by simp_all
  from failed_attempt_last[OF this k[symmetric], of "xs k"] show ?thesis
    unfolding k by (simp add: run_append)
qed

text \<open>
  Claim C1, as stated, fails: ten connection attempts in a row fail in the open handler (the
  constructor of the client throws), and the instance is not terminated, the promise is still
  pending and an eleventh socket has been created. Line 63 sets the counter to 0 at every
  open, so these failures never add up to the ceiling.
\<close>

theorem ten_init_failures_do_not_terminate:
  "terminate (run node tenInitFailures) = False \<and>
   resolved (run node tenInitFailures) = None \<and>
   reconnectionAttempts (run node tenInitFailures) = 1 \<and>
   socketsCreated (run node tenInitFailures) = 11"
  by (simp add: handler_defs const_defs scenario_defs tenInitFailures_def socketsCreated_def upt_rec)

text \<open>
  Claim C1, amended. On a fresh instance on which \<open>connect()\<close> is called, as long as no
  socket opens: at most ten sockets are created; once ten sockets have been created, all have
  closed and the last retry has fired, the instance is terminated and the promise of
  \<open>connect()\<close> is resolved with \<open>null\<close>; and once it is terminated, whatever notifications
  follow, it stays terminated, the promise stays resolved with \<open>null\<close>, no socket is created,
  no socket changes its state and no retry timer is pending, also after a further run of the
  close handler.
\<close>

theorem ceiling_reached_terminates:
  assumes "list_all (\<lambda>e. \<not> opens e) es"
  shows "(let s = run (connect (constructor u c)) es;
              s' = run s later
          in socketsCreated s \<le> MAX_RECONNECTION_ATTEMPTS \<and>
             (socketsCreated s = MAX_RECONNECTION_ATTEMPTS \<and>
              list_all (\<lambda>r. r = CLOSED) (sockets s) \<and> pendingRetries s = [] \<longrightarrow>
                terminate s \<and> resolved s = Some None) \<and>
             (terminate s \<longrightarrow>
                terminate s' \<and> resolved s' = Some None \<and>
                socketsCreated s' = socketsCreated s \<and> sockets s' = sockets s \<and>
                pendingRetries s' = [] \<and>
                sockets (closeHandler s') = sockets s' \<and> pendingRetries (closeHandler s') = []))"
proof -
  let ?s = "run (connect (constructor u c)) es"
  have "failing (connect (constructor u c))"
    using attempting_connect[of u c] by (auto simp: failing_def)
  then have "failing ?s"
    using assms by (rule failing_run)
  then consider (a) k where "attempting k ?s" | (r) k where "retrying k ?s" | (g) "givenUp ?s"
    by (auto simp: failing_def)
  then show ?thesis
  proof cases
    case a
    then show ?thesis
      unfolding Let_def by (simp add: attempting_def idle_def socketsCreated_def)
  next
    case r
    then show ?thesis
      unfolding Let_def by (auto simp add: retrying_def idle_def socketsCreated_def pendingRetries_def)
  next
    case g
    then have h: "halted ?s" by (simp add: givenUp_def)
    note l = halted_run[OF h, of later]
    then have h': "halted (run ?s later)" by simp
    show ?thesis
      unfolding Let_def using g l halted_close[OF h']
      by (simp add: givenUp_def halted_def socketsCreated_def pendingRetries_def)
  qed
qed

theorem ceiling_reached_terminates_witness:
  "list_all (\<lambda>e. \<not> opens e) tenFailures \<and>
   socketsCreated (run node tenFailures) = 10 \<and>
   list_all (\<lambda>r. r = CLOSED) (sockets (run node tenFailures)) \<and>
   pendingRetries (run node tenFailures) = [] \<and>
   terminate (run node tenFailures) \<and>
   resolved (run node tenFailures) = Some None \<and>
   socketsCreated (run (run node tenFailures) [(quiet, SocketClose 9), (quiet, TimerFires 9)]) = 10 \<and>
   pendingRetries (run (run node tenFailures) [(quiet, SocketClose 9), (quiet, TimerFires 9)]) = []"
proof -
  have 1: "list_all (\<lambda>e. \<not> opens e) tenFailures"
    by (simp add: tenFailures_def failedAttempt_def upt_rec)
  have "givenUp (run node tenFailures)"
    using ten_failed_attempts[of "''wss://node''" 1 "\<lambda>i. quiet"]
    by (simp add: node_def tenFailures_def MAX_RECONNECTION_ATTEMPTS_def)
  then have 2: "socketsCreated (run node tenFailures) = 10"
    and 3: "list_all (\<lambda>r. r = CLOSED) (sockets (run node tenFailures))"
    and 4: "pendingRetries (run node tenFailures) = []"
    by (auto simp add: givenUp_def halted_def socketsCreated_def pendingRetries_def
          MAX_RECONNECTION_ATTEMPTS_def)
  note th = ceiling_reached_terminates[OF 1, of "''wss://node''" 1
      "[(quiet, SocketClose 9), (quiet, TimerFires 9)]"]
  show ?thesis
    using th 1 2 3 4
    unfolding Let_def node_def MAX_RECONNECTION_ATTEMPTS_def
    by simp
qed

text \<open>
  Claim C9. The open handler of socket 0 fails while it initialises the client and schedules a
  retry; the socket, which the handler has not closed, then closes, and the close handler
  schedules a second retry. Two retry timers (timers 2 and 3) are pending at once, and when
  both have fired two sockets are connecting side by side.
\<close>

theorem init_failure_then_close_two_retries:
  "pendingRetries (run node [(initFails, SocketOpen 0), (quiet, SocketClose 0)]) =
     [\<lparr>timerId = 2, callback = StartConnectionCb, delay = 5000, repeating = False\<rparr>,
      \<lparr>timerId = 3, callback = StartConnectionCb, delay = 5000, repeating = False\<rparr>] \<and>
   sockets (run node [(initFails, SocketOpen 0), (quiet, SocketClose 0),
                      (quiet, TimerFires 2), (quiet, TimerFires 3)]) =
     [CLOSED, CONNECTING, CONNECTING]"
  by (simp add: handler_defs const_defs scenario_defs pendingRetries_def)

subsection \<open>Keep-alive\<close>




subsection \<open>Polling\<close>

lemma deliver_eq:
  "deliver x l gs s = (anyThrows x l gs, s\<lparr>effects := effects s @ map (ListenerCall l) (delivered x l gs)\<rparr>)"
  by (induction gs arbitrary: s) (simp_all add: Let_def emit_def)

lemma delivered_all: "\<not> anyThrows x l gs \<Longrightarrow> delivered x l gs = gs"
  by (induction gs) (simp_all split: if_splits)

lemma not_block: "startsWith a ''0x'' \<Longrightarrow> a \<noteq> ''block''"
  by (auto simp: startsWith_def)

lemma pollSubscription_address:
  assumes "type sub = EventName a" and "startsWith a ''0x''"
  shows "pollSubscription x cb sub s =
     (let f = \<lparr>address = a, fromBlock = lastProcessedBlock s + 1, toBlock = cb\<rparr>
      in case getLogsResult x f of
           Inl e \<Rightarrow> s\<lparr>effects := effects s @ [GetLogs f, ConsoleError (PollFailed (type sub))]\<rparr>
         | Inr logs \<Rightarrow>
             if anyThrows x (listener sub) logs
             then s\<lparr>effects := effects s @ GetLogs f # map (ListenerCall (listener sub)) (delivered x (listener sub) logs)
                       @ [ConsoleError (PollFailed (type sub))]\<rparr>
             else s\<lparr>effects := effects s @ GetLogs f # map (ListenerCall (listener sub)) logs,
                    lastProcessedBlock := cb\<rparr>)"
  using assms not_block[OF assms(2)]
  by (simp add: pollSubscription_def pollTry_def Let_def deliver_eq emit_def delivered_all split: sum.splits)

lemma pollSubscription_shape:
  "\<exists>es. pollSubscription x cb sub s = s\<lparr>effects := effects s @ es\<rparr> \<or>
        pollSubscription x cb sub s = s\<lparr>effects := effects s @ es, lastProcessedBlock := cb\<rparr>"
proof (cases "type sub")
  case (EventName a)
  show ?thesis
  proof (cases "a = ''block''")
    case True
    then have "pollSubscription x cb sub s = s\<lparr>effects := effects s @ [], lastProcessedBlock := cb\<rparr>"
      using EventName by (simp add: pollSubscription_def pollTry_def)
    then show ?thesis by blast
  next
    case nb: False
    show ?thesis
    proof (cases "startsWith a ''0x''")
      case True
      show ?thesis
        unfolding pollSubscription_address[OF EventName True]
        by (auto simp: Let_def split: sum.splits)
    next
      case False
      then have "pollSubscription x cb sub s = s\<lparr>effects := effects s @ []\<rparr>"
        using EventName nb by (simp add: pollSubscription_def pollTry_def)
      then show ?thesis by blast
    qed
  qed
next
  case (EventOther n)
  then have "pollSubscription x cb sub s = s\<lparr>effects := effects s @ []\<rparr>"
    by (simp add: pollSubscription_def pollTry_def)
  then show ?thesis by blast
qed

lemma pollLoop_shape:
  "\<exists>es. pollLoop x cb subs s = s\<lparr>effects := effects s @ es\<rparr> \<or>
        pollLoop x cb subs s = s\<lparr>effects := effects s @ es, lastProcessedBlock := cb\<rparr>"
proof (induction subs arbitrary: s)
  case Nil
  have "pollLoop x cb [] s = s\<lparr>effects := effects s @ []\<rparr>" by simp
  then show ?case by blast
next
  case (Cons sub subs)
  obtain es1 where 1: "pollSubscription x cb sub s = s\<lparr>effects := effects s @ es1\<rparr> \<or>
        pollSubscription x cb sub s = s\<lparr>effects := effects s @ es1, lastProcessedBlock := cb\<rparr>"
    using pollSubscription_shape by blast
  obtain es2 where 2: "pollLoop x cb subs (pollSubscription x cb sub s) =
        (pollSubscription x cb sub s)\<lparr>effects := effects (pollSubscription x cb sub s) @ es2\<rparr> \<or>
        pollLoop x cb subs (pollSubscription x cb sub s) =
        (pollSubscription x cb sub s)\<lparr>effects := effects (pollSubscription x cb sub s) @ es2, lastProcessedBlock := cb\<rparr>"
    using Cons.IH by blast
  from 1 2 have "pollLoop x cb (sub # subs) s = s\<lparr>effects := effects s @ (es1 @ es2)\<rparr> \<or>
        pollLoop x cb (sub # subs) s = s\<lparr>effects := effects s @ (es1 @ es2), lastProcessedBlock := cb\<rparr>"
    by auto
  then show ?case by blast
qed

lemma pollLoop_append: "pollLoop x cb (xs @ ys) s = pollLoop x cb ys (pollLoop x cb xs s)"
  by (induction xs arbitrary: s) simp_all


lemma pollEvents_split:
  assumes "blockNumberResult x = Inr cb" and "subscriptions s = pre @ sub # post"
  shows "pollEvents x s = pollLoop x cb post (pollSubscription x cb sub (pollLoop x cb pre (emit GetBlockNumber s)))"
  using assms by (simp add: pollEvents_def Let_def emit_def pollLoop_append)

lemma pollSubscription_fields:
  "pending (pollSubscription x cb sub s) = pending s"
  "subscriptions (pollSubscription x cb sub s) = subscriptions s"
  using pollSubscription_shape[of x cb sub s] by auto

lemma pollLoop_fields:
  "subscriptions (pollLoop x cb subs s) = subscriptions s"
  "pending (pollLoop x cb subs s) = pending s"
  "lastProcessedBlock (pollLoop x cb subs s) = lastProcessedBlock s \<or> lastProcessedBlock (pollLoop x cb subs s) = cb"
  using pollLoop_shape[of x cb subs s] by auto

lemma pollSubscription_resume:
  assumes "type sub = EventName a" and "startsWith a ''0x''"
  shows "pollSubscription x cb sub s =
     pollEventsResume x cb sub \<lparr>address = a, fromBlock = lastProcessedBlock s + 1, toBlock = cb\<rparr>
       (emit (GetLogs \<lparr>address = a, fromBlock = lastProcessedBlock s + 1, toBlock = cb\<rparr>) s)"
  using assms not_block[OF assms(2)]
  by (simp add: pollSubscription_def pollTry_def pollEventsResume_def Let_def split: sum.splits prod.splits bool.splits)

lemma answered_already:
  "length (pending s) \<le> k \<Longrightarrow> run s (replicate n (x, Answer k)) = s"
  by (induction n) (simp_all add: answer_def)

lemma answers_from:
  assumes "drop idx (subscriptions s) = rest"
  shows "run (pollEventsFrom cb idx rest s)
           (replicate (length (addressSelectors rest)) (x, Answer (length (pending s)))) =
         pollLoop x cb rest s"
  using assms
proof (induction rest arbitrary: idx s)
  case Nil
  show ?case by simp
next
  case (Cons sub rest)
  have next_rest: "drop (Suc idx) (subscriptions s) = rest"
    using Cons.prems by (metis drop_Suc list.sel(3) tl_drop)
  show ?case
  proof (cases "type sub")
    case (EventOther n)
    then have 1: "pollSubscription x cb sub s = s"
      by (simp add: pollSubscription_def pollTry_def)
    show ?thesis using EventOther Cons.IH[OF next_rest] 1 by simp
  next
    case (EventName a)
    show ?thesis
    proof (cases "a = ''block''")
      case True
      then have 1: "pollSubscription x cb sub s = s\<lparr>lastProcessedBlock := cb\<rparr>"
        using EventName by (simp add: pollSubscription_def pollTry_def)
      have "drop (Suc idx) (subscriptions (s\<lparr>lastProcessedBlock := cb\<rparr>)) = rest"
        using next_rest by simp
      from Cons.IH[OF this] show ?thesis using EventName True 1 by (simp add: startsWith_def)
    next
      case nb: False
      show ?thesis
      proof (cases "startsWith a ''0x''")
        case False
        then have 1: "pollSubscription x cb sub s = s"
          using EventName nb by (simp add: pollSubscription_def pollTry_def)
        show ?thesis using EventName nb False Cons.IH[OF next_rest] 1 by simp
      next
        case True
        let ?f = "\<lparr>address = a, fromBlock = lastProcessedBlock s + 1, toBlock = cb\<rparr>"
        let ?q = "(emit (GetLogs ?f) s)\<lparr>pending := pending s @ [AwaitLogs cb idx sub ?f]\<rparr>"
        let ?s1 = "pollSubscription x cb sub s"
        have reach: "pollEventsFrom cb idx (sub # rest) s = ?q"
          using EventName nb True by (simp add: Let_def)
        have restore: "?q\<lparr>pending := pending s\<rparr> = emit (GetLogs ?f) s"
          by (simp add: emit_def)
        have ans: "step ?q (x, Answer (length (pending s))) =
            pollEventsFrom cb (Suc idx) (drop (Suc idx) (subscriptions ?s1)) ?s1"
          unfolding pollSubscription_resume[OF EventName True]
          by (simp add: answer_def Let_def emit_def)
        have sel: "addressSelectors (sub # rest) = a # addressSelectors rest"
          using EventName True by simp
        have d: "drop (Suc idx) (subscriptions ?s1) = rest"
          using next_rest by (simp add: pollSubscription_fields)
        have p: "length (pending ?s1) = length (pending s)"
          by (simp add: pollSubscription_fields)
        show ?thesis
          unfolding reach sel using ans Cons.IH[OF d] d p by simp
      qed
    qed
  qed
qed

text \<open>
  A polling cycle that nothing interrupts is \<open>pollEvents\<close>: the poll timer fires, and the
  answers to the calls of the cycle are delivered one after the other.
\<close>

lemma uninterrupted_cycle:
  assumes "find (\<lambda>t. timerId t = h) (timers s) = Some t"
      and "callback t = EventPollCb" and "repeating t" and "provider s \<noteq> None"
  shows "run s (pollCycle x h (length (pending s)) (Suc (length (addressSelectors (subscriptions s))))) =
         pollEvents x s"
proof -
  let ?n = "length (pending s)"
  let ?s1 = "emit GetBlockNumber s"
  have tick: "step s (x, TimerFires h) = ?s1\<lparr>pending := pending s @ [AwaitBlockNumber]\<rparr>"
    using assms by (auto simp add: fireTimer_def runCallback_def eventPollTick_def pollEventsStart_def)
  have restore: "?s1\<lparr>pending := pending s\<rparr> = ?s1"
    by (simp add: emit_def)
  show ?thesis
  proof (cases "blockNumberResult x")
    case (Inl e)
    then have "step (?s1\<lparr>pending := pending s @ [AwaitBlockNumber]\<rparr>) (x, Answer ?n) =
        emit (ConsoleError UnhandledRejection) ?s1"
      by (simp add: answer_def Let_def emit_def)
    then show ?thesis
      using Inl tick
      by (simp add: pollCycle_def pollEvents_def Let_def answered_already emit_def)
  next
    case (Inr cb)
    then have "step (?s1\<lparr>pending := pending s @ [AwaitBlockNumber]\<rparr>) (x, Answer ?n) =
        pollEventsFrom cb 0 (subscriptions ?s1) ?s1"
      by (simp add: answer_def Let_def emit_def)
    moreover have "run (pollEventsFrom cb 0 (subscriptions ?s1) ?s1)
           (replicate (length (addressSelectors (subscriptions ?s1))) (x, Answer (length (pending ?s1)))) =
         pollLoop x cb (subscriptions ?s1) ?s1"
      by (rule answers_from) simp
    ultimately show ?thesis
      using Inr tick
      by (simp add: pollCycle_def pollEvents_def Let_def emit_def)
  qed
qed

lemma replicate_numeral: "replicate (numeral n) x = x # replicate (pred_numeral n) x"
  by (simp add: numeral_eq_Suc)

lemma pollEventsFrom_shape:
  "\<exists>es ps w. pollEventsFrom cb idx rest s =
             s\<lparr>effects := effects s @ es, pending := pending s @ ps, lastProcessedBlock := w\<rparr> \<and>
           (w = lastProcessedBlock s \<or> w = cb)"
proof (induction rest arbitrary: idx s)
  case Nil
  have "pollEventsFrom cb idx [] s =
      s\<lparr>effects := effects s @ [], pending := pending s @ [], lastProcessedBlock := lastProcessedBlock s\<rparr>"
    by simp
  then show ?case by blast
next
  case (Cons sub rest)
  note ih = Cons.IH[of "Suc idx"]
  show ?case
  proof (cases "type sub")
    case (EventOther n)
    then show ?thesis using ih[of s] by simp
  next
    case (EventName a)
    show ?thesis
    proof (cases "a = ''block''")
      case True
      obtain es ps w where
        "pollEventsFrom cb (Suc idx) rest (s\<lparr>lastProcessedBlock := cb\<rparr>) =
           (s\<lparr>lastProcessedBlock := cb\<rparr>)\<lparr>effects := effects (s\<lparr>lastProcessedBlock := cb\<rparr>) @ es,
              pending := pending (s\<lparr>lastProcessedBlock := cb\<rparr>) @ ps, lastProcessedBlock := w\<rparr>"
        and "w = lastProcessedBlock (s\<lparr>lastProcessedBlock := cb\<rparr>) \<or> w = cb"
        using ih[of "s\<lparr>lastProcessedBlock := cb\<rparr>"] by blast
      then have "pollEventsFrom cb idx (sub # rest) s =
           s\<lparr>effects := effects s @ es, pending := pending s @ ps, lastProcessedBlock := w\<rparr> \<and>
           (w = lastProcessedBlock s \<or> w = cb)"
        using EventName True by simp
      then show ?thesis by blast
    next
      case nb: False
      show ?thesis
      proof (cases "startsWith a ''0x''")
        case False
        then show ?thesis using EventName nb ih[of s] by simp
      next
        case True
        let ?f = "\<lparr>address = a, fromBlock = lastProcessedBlock s + 1, toBlock = cb\<rparr>"
        have "pollEventsFrom cb idx (sub # rest) s =
            s\<lparr>effects := effects s @ [GetLogs ?f], pending := pending s @ [AwaitLogs cb idx sub ?f],
              lastProcessedBlock := lastProcessedBlock s\<rparr>"
          using EventName nb True by (simp add: Let_def emit_def)
        then show ?thesis by blast
      qed
    qed
  qed
qed

lemma pollEventsFrom_fields:
  "\<exists>more. effects (pollEventsFrom cb idx rest s) = effects s @ more"
  "subscriptions (pollEventsFrom cb idx rest s) = subscriptions s"
  "lastProcessedBlock (pollEventsFrom cb idx rest s) = lastProcessedBlock s \<or>
   lastProcessedBlock (pollEventsFrom cb idx rest s) = cb"
  using pollEventsFrom_shape[of cb idx rest s] by auto

lemma pollEventsResume_eq:
  "pollEventsResume x cb sub f s =
     (case getLogsResult x f of
        Inl e \<Rightarrow> s\<lparr>effects := effects s @ [ConsoleError (PollFailed (type sub))]\<rparr>
      | Inr logs \<Rightarrow>
          if anyThrows x (listener sub) logs
          then s\<lparr>effects := effects s @ map (ListenerCall (listener sub)) (delivered x (listener sub) logs)
                    @ [ConsoleError (PollFailed (type sub))]\<rparr>
          else s\<lparr>effects := effects s @ map (ListenerCall (listener sub)) logs,
                 lastProcessedBlock := cb\<rparr>)"
  by (simp add: pollEventsResume_def deliver_eq emit_def delivered_all split: sum.splits)

lemma answer_logs:
  assumes "k < length (pending m)" and "pending m ! k = AwaitLogs cb idx sub f"
  shows "\<exists>more. effects (step m (y, Answer k)) =
           effects m @
             (case getLogsResult y f of
                Inl e \<Rightarrow> [ConsoleError (PollFailed (type sub))]
              | Inr logs \<Rightarrow>
                  map (ListenerCall (listener sub)) (delivered y (listener sub) logs) @
                  (if anyThrows y (listener sub) logs
                   then [ConsoleError (PollFailed (type sub))] else [])) @ more"
proof -
  let ?m0 = "m\<lparr>pending := take k (pending m) @ drop (Suc k) (pending m)\<rparr>"
  let ?m1 = "pollEventsResume y cb sub f ?m0"
  have st: "step m (y, Answer k) = pollEventsFrom cb (Suc idx) (drop (Suc idx) (subscriptions ?m1)) ?m1"
    using assms by (simp add: answer_def Let_def)
  obtain more where more: "effects (pollEventsFrom cb (Suc idx) (drop (Suc idx) (subscriptions ?m1)) ?m1) =
      effects ?m1 @ more"
    using pollEventsFrom_fields(1) by blast
  have "effects ?m1 = effects m @
             (case getLogsResult y f of
                Inl e \<Rightarrow> [ConsoleError (PollFailed (type sub))]
              | Inr logs \<Rightarrow>
                  map (ListenerCall (listener sub)) (delivered y (listener sub) logs) @
                  (if anyThrows y (listener sub) logs
                   then [ConsoleError (PollFailed (type sub))] else []))"
    by (simp add: pollEventsResume_eq delivered_all split: sum.splits)
  then show ?thesis unfolding st more by simp
qed

text \<open>
  Claim C2, evaluated. Two address subscriptions are registered; in one polling cycle, with
  current block 5, \<open>getLogs\<close> raises for \<open>0xA\<close> (the error is reported) and succeeds for
  \<open>0xB\<close>. The watermark is 5 after the cycle, so the blocks 1 to 5 are never queried again
  for \<open>0xA\<close>.
\<close>

theorem watermark_advances_past_failed_query:
  "subscriptions twoAddresses =
     [\<lparr>type = EventName ''0xA'', listener = 1\<rparr>, \<lparr>type = EventName ''0xB'', listener = 2\<rparr>] \<and>
   lastProcessedBlock twoAddresses = 0 \<and>
   getLogsResult (failsFor ''0xA'') \<lparr>address = ''0xA'', fromBlock = 1, toBlock = 5\<rparr> =
     Inl (Error ''query failed'') \<and>
   effects (run twoAddresses (pollCycle (failsFor ''0xA'') 1 0 3)) =
     effects twoAddresses @
       [GetBlockNumber,
        GetLogs \<lparr>address = ''0xA'', fromBlock = 1, toBlock = 5\<rparr>,
        ConsoleError (PollFailed (EventName ''0xA'')),
        GetLogs \<lparr>address = ''0xB'', fromBlock = 1, toBlock = 5\<rparr>,
        ListenerCall 2 7] \<and>
   lastProcessedBlock (run twoAddresses (pollCycle (failsFor ''0xA'') 1 0 3)) = 5"
  by (simp add: handler_defs const_defs scenario_defs replicate_numeral Let_def)

text \<open>
  Claim C3, as stated, fails: the query of \<open>0xA\<close> returns the logs 10 and 11, the listener
  throws on log 10, and log 11 is never handed to it.
\<close>

theorem throwing_listener_skips_later_logs:
  "getLogsResult (throwsOn 10) \<lparr>address = ''0xA'', fromBlock = 1, toBlock = 5\<rparr> = Inr [10, 11] \<and>
   logQueries (effects (run oneAddress (pollCycle (throwsOn 10) 1 0 2))) =
     [\<lparr>address = ''0xA'', fromBlock = 1, toBlock = 5\<rparr>] \<and>
   listenerCalls (effects (run oneAddress (pollCycle (throwsOn 10) 1 0 2))) = [(1, 10)]"
  by (simp add: handler_defs const_defs scenario_defs replicate_numeral Let_def)

text \<open>
  Claim C3, amended. A polling cycle whose calls are answered one after the other is
  \<open>pollEvents\<close>. In such a cycle with current block \<open>currentBlock\<close>, an address subscription
  \<open>sub\<close> of the registry is reached in the state \<open>mid\<close> left by the subscriptions before it. It is queried once, with its address
  and \<open>toBlock = currentBlock\<close>; when the watermark of \<open>mid\<close> is still the one the cycle
  started with, \<open>fromBlock\<close> is that watermark plus one. When the query raises, the error is
  reported; otherwise the listener is called on the returned logs in their order, once each,
  up to and including the first call that throws (which is then reported), and on every
  returned log when no call throws. The same calls of the listener are made in any state in
  which the answer to a pending query arrives.
\<close>

theorem address_subscription_query:
  assumes "blockNumberResult x = Inr currentBlock"
      and "subscriptions s = pre @ sub # post"
      and "type sub = EventName a" and "startsWith a ''0x''"
      and "k < length (pending m)" and "pending m ! k = AwaitLogs cb idx sub' f'"
      and "find (\<lambda>t. timerId t = h) (timers s) = Some t"
      and "callback t = EventPollCb" and "repeating t" and "provider s \<noteq> None"
  shows "run s (pollCycle x h (length (pending s)) (Suc (length (addressSelectors (subscriptions s))))) =
           pollEvents x s \<and>
         (let mid = pollLoop x currentBlock pre (emit GetBlockNumber s)
          in pollEvents x s = pollLoop x currentBlock post (pollSubscription x currentBlock sub mid) \<and>
             (\<exists>f. address f = a \<and> toBlock f = currentBlock \<and>
                  (lastProcessedBlock mid = lastProcessedBlock s \<longrightarrow>
                     fromBlock f = lastProcessedBlock s + 1) \<and>
                  effects (pollSubscription x currentBlock sub mid) =
                    effects mid @ GetLogs f #
                      (case getLogsResult x f of
                         Inl e \<Rightarrow> [ConsoleError (PollFailed (type sub))]
                       | Inr logs \<Rightarrow>
                           map (ListenerCall (listener sub)) (delivered x (listener sub) logs) @
                           (if anyThrows x (listener sub) logs
                            then [ConsoleError (PollFailed (type sub))] else [])) \<and>
                  (case getLogsResult x f of
                     Inl e \<Rightarrow> True
                   | Inr logs \<Rightarrow>
                       anyThrows x (listener sub) logs \<or> delivered x (listener sub) logs = logs))) \<and>
         (\<exists>more. effects (step m (y, Answer k)) =
            effects m @
              (case getLogsResult y f' of
                 Inl e \<Rightarrow> [ConsoleError (PollFailed (type sub'))]
               | Inr logs \<Rightarrow>
                   map (ListenerCall (listener sub')) (delivered y (listener sub') logs) @
                   (if anyThrows y (listener sub') logs
                    then [ConsoleError (PollFailed (type sub'))] else [])) @ more)"
proof -
  let ?mid = "pollLoop x currentBlock pre (emit GetBlockNumber s)"
  let ?f = "\<lparr>address = a, fromBlock = lastProcessedBlock ?mid + 1, toBlock = currentBlock\<rparr>"
  have 1: "pollEvents x s = pollLoop x currentBlock post (pollSubscription x currentBlock sub ?mid)"
    by (rule pollEvents_split[OF assms(1,2)])
  have 2: "effects (pollSubscription x currentBlock sub ?mid) =
                    effects ?mid @ GetLogs ?f #
                      (case getLogsResult x ?f of
                         Inl e \<Rightarrow> [ConsoleError (PollFailed (type sub))]
                       | Inr logs \<Rightarrow>
                           map (ListenerCall (listener sub)) (delivered x (listener sub) logs) @
                           (if anyThrows x (listener sub) logs
                            then [ConsoleError (PollFailed (type sub))] else []))"
    unfolding pollSubscription_address[OF assms(3,4)]
    by (simp add: Let_def delivered_all split: sum.splits)
  have 3: "(case getLogsResult x ?f of
                     Inl e \<Rightarrow> True
                   | Inr logs \<Rightarrow>
                       anyThrows x (listener sub) logs \<or> delivered x (listener sub) logs = logs)"
    using delivered_all[of x "listener sub"] by (auto split: sum.splits)
  have 4: "address ?f = a \<and> toBlock ?f = currentBlock \<and>
        (lastProcessedBlock ?mid = lastProcessedBlock s \<longrightarrow> fromBlock ?f = lastProcessedBlock s + 1)"
    by simp
  show ?thesis
    unfolding Let_def
    using 1 2 3 4 answer_logs[OF assms(5,6), of y] uninterrupted_cycle[OF assms(7-10), of x] by blast
qed

theorem address_subscription_query_witness:
  "find (\<lambda>t. timerId t = 1) (timers oneAddress) =
     Some \<lparr>timerId = 1, callback = EventPollCb, delay = 60000, repeating = True\<rparr> \<and>
   provider oneAddress = Some 0 \<and>
   blockNumberResult (returns [10, 11]) = Inr 5 \<and>
   subscriptions oneAddress = [] @ \<lparr>type = EventName ''0xA'', listener = 1\<rparr> # [] \<and>
   startsWith ''0xA'' ''0x'' \<and>
   pending awaitingLogs =
     [AwaitLogs 5 0 \<lparr>type = EventName ''0xA'', listener = 1\<rparr>
        \<lparr>address = ''0xA'', fromBlock = 1, toBlock = 5\<rparr>] \<and>
   run oneAddress (pollCycle (returns [10, 11]) 1 0 2) = pollEvents (returns [10, 11]) oneAddress \<and>
   effects (pollEvents (returns [10, 11]) oneAddress) =
     effects oneAddress @
       [GetBlockNumber, GetLogs \<lparr>address = ''0xA'', fromBlock = 1, toBlock = 5\<rparr>,
        ListenerCall 1 10, ListenerCall 1 11] \<and>
   effects (step awaitingLogs (throwsOn 10, Answer 0)) =
     effects awaitingLogs @ [ListenerCall 1 10, ConsoleError (PollFailed (EventName ''0xA''))]"
proof -
  let ?A = "\<lparr>type = EventName ''0xA'', listener = 1\<rparr>"
  let ?f = "\<lparr>address = ''0xA'', fromBlock = 1, toBlock = 5\<rparr>"
  have 1: "blockNumberResult (returns [10, 11]) = Inr 5"
    by (simp add: scenario_defs)
  have 2: "subscriptions oneAddress = [] @ ?A # []"
    by (simp add: handler_defs const_defs scenario_defs)
  have 3: "type ?A = EventName ''0xA''"
    by simp
  have 4: "startsWith ''0xA'' ''0x''"
    by (simp add: startsWith_def)
  have 5: "pending awaitingLogs = [AwaitLogs 5 0 ?A ?f]"
    by (simp add: handler_defs const_defs scenario_defs Let_def)
  have 6: "0 < length (pending awaitingLogs)" and 7: "pending awaitingLogs ! 0 = AwaitLogs 5 0 ?A ?f"
    unfolding 5 by simp_all
  have 8: "effects (pollEvents (returns [10, 11]) oneAddress) =
     effects oneAddress @ [GetBlockNumber, GetLogs ?f, ListenerCall 1 10, ListenerCall 1 11]"
    by (simp add: handler_defs const_defs scenario_defs)
  have 9: "effects (step awaitingLogs (throwsOn 10, Answer 0)) =
     effects awaitingLogs @ [ListenerCall 1 10, ConsoleError (PollFailed (EventName ''0xA''))]"
    by (simp add: handler_defs const_defs scenario_defs Let_def)
  let ?t = "\<lparr>timerId = 1, callback = EventPollCb, delay = 60000, repeating = True\<rparr>"
  have 10: "find (\<lambda>t. timerId t = 1) (timers oneAddress) = Some ?t"
    and 11: "provider oneAddress \<noteq> None" and 12: "provider oneAddress = Some 0"
    and 13: "pending oneAddress = []"
    by (simp_all add: handler_defs const_defs scenario_defs)
  have 14: "callback ?t = EventPollCb" and 15: "repeating ?t"
    by simp_all
  note th = address_subscription_query[OF 1 2 3 4 6 7 10 14 15 11, of "throwsOn 10"]
  have 16: "Suc (length (addressSelectors (subscriptions oneAddress))) = 2"
    unfolding 2 by (simp add: startsWith_def)
  have 17: "run oneAddress (pollCycle (returns [10, 11]) 1 0 2) = pollEvents (returns [10, 11]) oneAddress"
    using th unfolding 13 16 by simp
  show ?thesis
    using 1 2 4 5 8 9 10 12 17 by blast
qed

text \<open>
  Claim C10, as stated, fails: the registry holds \<open>block\<close> during a first cycle at block 5,
  then \<open>0xA\<close> is subscribed, and the first cycle that processes \<open>0xA\<close>, at block 7, queries it
  from block 8 and not from block 1.
\<close>

theorem first_address_query_not_from_block_one:
  "logQueries (effects (run blockOnly
      (pollCycle (blockAt 5) 1 0 1 @ [(quiet, ClientOn (EventName ''0xA'') 2)] @
       pollCycle (blockAt 7) 1 0 2))) =
     [\<lparr>address = ''0xA'', fromBlock = 8, toBlock = 7\<rparr>]"
  by (simp add: handler_defs const_defs scenario_defs replicate_numeral Let_def)

text \<open>
  Claim C10, amended. The constructor sets the watermark to 0. An address subscription that
  is reached in a polling cycle while the watermark is still 0 is queried from block 1 to the
  current block, and its listener is called on the logs that query returns, in their order,
  up to and including the first call that throws.
\<close>

theorem fresh_watermark_queries_from_block_one:
  assumes "blockNumberResult x = Inr currentBlock"
      and "subscriptions s = pre @ sub # post"
      and "type sub = EventName a" and "startsWith a ''0x''"
      and "lastProcessedBlock (pollLoop x currentBlock pre (emit GetBlockNumber s)) = 0"
  shows "lastProcessedBlock (constructor u c) = 0 \<and>
         (let mid = pollLoop x currentBlock pre (emit GetBlockNumber s);
              f = \<lparr>address = a, fromBlock = 1, toBlock = currentBlock\<rparr>
          in pollEvents x s = pollLoop x currentBlock post (pollSubscription x currentBlock sub mid) \<and>
             logQueries (effects (pollSubscription x currentBlock sub mid)) =
               logQueries (effects mid) @ [f] \<and>
             listenerCalls (effects (pollSubscription x currentBlock sub mid)) =
               listenerCalls (effects mid) @
                 map (Pair (listener sub))
                   (case getLogsResult x f of Inl e \<Rightarrow> [] | Inr logs \<Rightarrow> delivered x (listener sub) logs))"
  unfolding Let_def pollEvents_split[OF assms(1,2)] pollSubscription_address[OF assms(3,4)]
  using assms(5)
  by (simp add: constructor_def delivered_all logQueries_append listenerCalls_append
        logQueries_calls listenerCalls_calls split: sum.splits)

theorem fresh_watermark_queries_from_block_one_witness:
  "blockNumberResult (throwsOn 11) = Inr 5 \<and>
   subscriptions twoAddresses =
     [] @ \<lparr>type = EventName ''0xA'', listener = 1\<rparr> # [\<lparr>type = EventName ''0xB'', listener = 2\<rparr>] \<and>
   startsWith ''0xA'' ''0x'' \<and>
   lastProcessedBlock (pollLoop (throwsOn 11) 5 [] (emit GetBlockNumber twoAddresses)) = 0 \<and>
   logQueries (effects (pollSubscription (throwsOn 11) 5 \<lparr>type = EventName ''0xA'', listener = 1\<rparr>
       (emit GetBlockNumber twoAddresses))) = [\<lparr>address = ''0xA'', fromBlock = 1, toBlock = 5\<rparr>] \<and>
   listenerCalls (effects (pollSubscription (throwsOn 11) 5 \<lparr>type = EventName ''0xA'', listener = 1\<rparr>
       (emit GetBlockNumber twoAddresses))) = [(1, 10), (1, 11)]"
proof -
  have 1: "blockNumberResult (throwsOn 11) = Inr 5"
    by (simp add: scenario_defs)
  have 2: "subscriptions twoAddresses =
     [] @ \<lparr>type = EventName ''0xA'', listener = 1\<rparr> # [\<lparr>type = EventName ''0xB'', listener = 2\<rparr>]"
    by (simp add: handler_defs const_defs scenario_defs)
  have 3: "type \<lparr>type = EventName ''0xA'', listener = 1\<rparr> = EventName ''0xA''"
    by simp
  have 4: "startsWith ''0xA'' ''0x''"
    by (simp add: startsWith_def)
  have 5: "lastProcessedBlock (pollLoop (throwsOn 11) 5 [] (emit GetBlockNumber twoAddresses)) = 0"
    by (simp add: handler_defs const_defs scenario_defs)
  have 6: "logQueries (effects twoAddresses) = []" "listenerCalls (effects twoAddresses) = []"
    by (simp_all add: handler_defs const_defs scenario_defs)
  from fresh_watermark_queries_from_block_one[OF 1 2 3 4 5] 1 2 4 5 6 show ?thesis
    by (simp add: Let_def emit_def logQueries_append listenerCalls_append throwsOn_def returns_def quiet_def)
qed

subsection \<open>What each handler leaves alone\<close>

lemma resubscribeOne_shape: "\<exists>es. resubscribeOne x sub s = s\<lparr>effects := effects s @ es\<rparr>"
proof (cases "provider s")
  case None
  then have "resubscribeOne x sub s = s\<lparr>effects := effects s @ []\<rparr>"
    by (simp add: resubscribeOne_def resubscribeTry_def)
  then show ?thesis by blast
next
  case (Some p)
  show ?thesis
  proof (cases "onResult x p (type sub) (listener sub)")
    case (Inl e)
    then have "resubscribeOne x sub s = s\<lparr>effects := effects s @ [ProviderOn p (type sub) (listener sub), ConsoleError (ResubscribeFailed (type sub))]\<rparr>"
      using Some by (simp add: resubscribeOne_def resubscribeTry_def originalOn_def emit_def)
    then show ?thesis by blast
  next
    case (Inr r)
    then have "resubscribeOne x sub s = s\<lparr>effects := effects s @ [ProviderOn p (type sub) (listener sub)]\<rparr>"
      using Some by (simp add: resubscribeOne_def resubscribeTry_def originalOn_def emit_def)
    then show ?thesis by blast
  qed
qed

lemma resubscribeLoop_shape: "\<exists>es. resubscribeLoop x subs s = s\<lparr>effects := effects s @ es\<rparr>"
proof (induction subs arbitrary: s)
  case Nil
  have "resubscribeLoop x [] s = s\<lparr>effects := effects s @ []\<rparr>" by simp
  then show ?case by blast
next
  case (Cons sub subs)
  obtain es1 where 1: "resubscribeOne x sub s = s\<lparr>effects := effects s @ es1\<rparr>"
    using resubscribeOne_shape by blast
  obtain es2 where 2: "resubscribeLoop x subs (resubscribeOne x sub s) =
      (resubscribeOne x sub s)\<lparr>effects := effects (resubscribeOne x sub s) @ es2\<rparr>"
    using Cons.IH by blast
  from 1 2 have "resubscribeLoop x (sub # subs) s = s\<lparr>effects := effects s @ (es1 @ es2)\<rparr>"
    by simp
  then show ?case by blast
qed

lemma resubscribeLoop_fields:
  "lastProcessedBlock (resubscribeLoop x subs s) = lastProcessedBlock s"
  "subscriptions (resubscribeLoop x subs s) = subscriptions s"
  "provider (resubscribeLoop x subs s) = provider s"
  "resolved (resubscribeLoop x subs s) = resolved s"
  "pending (resubscribeLoop x subs s) = pending s"
  using resubscribeLoop_shape[of x subs s] by auto

lemma initFailed_frame:
  "lastProcessedBlock (initFailed s) = lastProcessedBlock s"
  "pending (initFailed s) = pending s"
  "subscriptions (initFailed s) = subscriptions s"
  by (simp_all add: initFailed_def Let_def cleanupConnection_def clearIfSet_eq emit_def setTimeout_def)

lemma waitReady_frame:
  "lastProcessedBlock (waitReady x p s) = lastProcessedBlock s"
  "pending (waitReady x p s) = pending s"
  "subscriptions (waitReady x p s) = subscriptions s"
  by (simp_all add: waitReady_def Let_def resolve_def resubscribe_def resubscribeLoop_fields
        setTimeout_def)

lemma waitSocket_frame:
  "lastProcessedBlock (waitSocket x p s) = lastProcessedBlock s"
  "pending (waitSocket x p s) = pending s"
  "subscriptions (waitSocket x p s) = subscriptions s"
  by (simp_all add: waitSocket_def initFailed_frame waitReady_frame setTimeout_def)

lemma openHandler_frame:
  "lastProcessedBlock (openHandler x s) = lastProcessedBlock s"
  "pending (openHandler x s) = pending s"
  "subscriptions (openHandler x s) = subscriptions s"
  by (simp_all add: openHandler_def Let_def initFailed_frame waitSocket_frame setupEventPolling_def
        setupKeepAlive_def setInterval_def emit_def)

lemma closeHandler_frame:
  "lastProcessedBlock (closeHandler s) = lastProcessedBlock s"
  "pending (closeHandler s) = pending s"
  "subscriptions (closeHandler s) = subscriptions s"
  by (simp_all add: closeHandler_def Let_def cleanupConnection_def clearIfSet_eq emit_def setTimeout_def)

lemma fireTimer_frame:
  "lastProcessedBlock (fireTimer x h s) = lastProcessedBlock s"
  "pending (fireTimer x h s) = pending s \<or> pending (fireTimer x h s) = pending s @ [AwaitBlockNumber]"
  "subscriptions (fireTimer x h s) = subscriptions s"
proof -
  have cb: "\<And>c u. lastProcessedBlock (runCallback x c u) = lastProcessedBlock u \<and>
      (pending (runCallback x c u) = pending u \<or> pending (runCallback x c u) = pending u @ [AwaitBlockNumber]) \<and>
      subscriptions (runCallback x c u) = subscriptions u"
  proof -
    fix c u
    show "lastProcessedBlock (runCallback x c u) = lastProcessedBlock u \<and>
      (pending (runCallback x c u) = pending u \<or> pending (runCallback x c u) = pending u @ [AwaitBlockNumber]) \<and>
      subscriptions (runCallback x c u) = subscriptions u"
      by (cases c)
         (simp_all add: runCallback_def startConnection_def resolve_def emit_def keepAliveTick_def
            pingTimeoutFired_def setTimeout_def Let_def eventPollTick_def pollEventsStart_def
            waitSocket_frame waitReady_frame split: option.splits)
  qed
  show "lastProcessedBlock (fireTimer x h s) = lastProcessedBlock s"
    using cb by (simp add: fireTimer_def clearTimer_def split: option.splits)
  show "pending (fireTimer x h s) = pending s \<or> pending (fireTimer x h s) = pending s @ [AwaitBlockNumber]"
    using cb[of _ s] cb[of _ "clearTimer h s"] by (simp add: fireTimer_def clearTimer_def split: option.splits)
  show "subscriptions (fireTimer x h s) = subscriptions s"
    using cb by (simp add: fireTimer_def clearTimer_def split: option.splits)
qed

lemma step_frame:
  assumes "\<not> isAnswer ev"
  shows "lastProcessedBlock (step s (x, ev)) = lastProcessedBlock s"
    and "pending (step s (x, ev)) = pending s \<or> pending (step s (x, ev)) = pending s @ [AwaitBlockNumber]"
  using assms fireTimer_frame(1,2)[of x _ s]
  by (cases ev; simp add: openHandler_frame closeHandler_frame errorHandler_def emit_def
        pongHandler_def clearIfSet_eq wrappedOn_def originalOn_def split: option.splits)+

lemma pollEventsResume_fields:
  "subscriptions (pollEventsResume x cb sub f s) = subscriptions s"
  "pending (pollEventsResume x cb sub f s) = pending s"
  "lastProcessedBlock (pollEventsResume x cb sub f s) = lastProcessedBlock s \<or>
   lastProcessedBlock (pollEventsResume x cb sub f s) = cb"
  by (simp_all add: pollEventsResume_eq split: sum.splits)

lemma answer_subscriptions: "subscriptions (answer x k s) = subscriptions s"
  by (simp add: answer_def Let_def pollEventsFrom_fields pollEventsResume_fields emit_def
        split: PendingCall.splits sum.splits)

lemma step_subscriptions:
  "\<not> isClientOn e \<Longrightarrow> subscriptions (step s e) = subscriptions s"
proof -
  assume n: "\<not> isClientOn e"
  obtain x ev where e: "e = (x, ev)" by (cases e)
  show ?thesis
    using n e fireTimer_frame(3)[of x _ s]
    by (cases ev)
       (simp_all add: openHandler_frame closeHandler_frame errorHandler_def emit_def
          pongHandler_def clearIfSet_eq answer_subscriptions)
qed

lemma run_subscriptions:
  "list_all (\<lambda>e. \<not> isClientOn e) es \<Longrightarrow> subscriptions (run s es) = subscriptions s"
  by (induction es arbitrary: s) (simp_all add: step_subscriptions)

subsection \<open>The watermark along a run\<close>

lemma pollEventsFrom_pending:
  "pending (pollEventsFrom cb idx rest s) = pending s \<or>
   (\<exists>i sb f. pending (pollEventsFrom cb idx rest s) = pending s @ [AwaitLogs cb i sb f])"
proof (induction rest arbitrary: idx s)
  case Nil
  show ?case by simp
next
  case (Cons sub rest)
  note ih = Cons.IH[of "Suc idx"]
  show ?case
  proof (cases "type sub")
    case (EventOther n)
    then show ?thesis using ih[of s] by simp
  next
    case (EventName a)
    show ?thesis
    proof (cases "a = ''block''")
      case True
      then show ?thesis using EventName ih[of "s\<lparr>lastProcessedBlock := cb\<rparr>"] by simp
    next
      case nb: False
      show ?thesis
      proof (cases "startsWith a ''0x''")
        case False
        then show ?thesis using EventName nb ih[of s] by simp
      next
        case True
        then show ?thesis using EventName nb by (simp add: Let_def emit_def)
      qed
    qed
  qed
qed

text \<open>
  One stretch of a polling cycle, started in a state \<open>u\<close> in which no call is pending, with
  a watermark that is at most the current block \<open>cb\<close> of the cycle, which in turn is at most
  the block numbers \<open>bs\<close> still to come.
\<close>

lemma stretch_ordered:
  assumes "pending u = []" and "lastProcessedBlock u \<le> cb" and "sorted (cb # bs)"
      and "v = pollEventsFrom cb idx rest u"
  shows "lastProcessedBlock u \<le> lastProcessedBlock v \<and>
         lastProcessedBlock v \<le> cycleBlock v \<and> sorted (cycleBlock v # bs)"
proof -
  have w: "lastProcessedBlock v = lastProcessedBlock u \<or> lastProcessedBlock v = cb"
    using assms(4) pollEventsFrom_fields(3)[of cb idx rest u] by simp
  have p: "pending v = [] \<or> (\<exists>i sb f. pending v = [AwaitLogs cb i sb f])"
    using assms(1,4) pollEventsFrom_pending[of cb idx rest u] by simp
  have c: "cycleBlock v = lastProcessedBlock v \<or> cycleBlock v = cb"
    using p by (auto simp: cycleBlock_def)
  have c': "lastProcessedBlock v \<le> cycleBlock v"
    using p w assms(2) by (auto simp: cycleBlock_def)
  show ?thesis
    using w c c' assms(2,3) by auto
qed

lemma answer_ordered:
  assumes "length (pending s) \<le> 1"
      and "lastProcessedBlock s \<le> cycleBlock s"
      and "sorted (cycleBlock s # polledBlock (x, Answer k) @ bs)"
  shows "lastProcessedBlock s \<le> lastProcessedBlock (answer x k s) \<and>
         lastProcessedBlock (answer x k s) \<le> cycleBlock (answer x k s) \<and>
         sorted (cycleBlock (answer x k s) # bs)"
proof (cases "k < length (pending s)")
  case False
  then have "answer x k s = s" by (simp add: answer_def)
  then show ?thesis using assms(2,3) by (auto simp: sorted_append)
next
  case True
  then obtain c where pc: "pending s = [c]" and k: "k = 0"
    using assms(1) by (cases "pending s") auto
  let ?s0 = "s\<lparr>pending := []\<rparr>"
  show ?thesis
  proof (cases c)
    case AwaitBlockNumber
    have cs: "cycleBlock s = lastProcessedBlock s"
      using pc AwaitBlockNumber by (simp add: cycleBlock_def)
    show ?thesis
    proof (cases "blockNumberResult x")
      case (Inl e)
      then have "answer x k s = emit (ConsoleError UnhandledRejection) ?s0"
        using pc k AwaitBlockNumber by (simp add: answer_def)
      then show ?thesis using assms(3) Inl cs by (simp add: emit_def cycleBlock_def)
    next
      case (Inr b)
      then have a: "answer x k s = pollEventsFrom b 0 (subscriptions ?s0) ?s0"
        using pc k AwaitBlockNumber by (simp add: answer_def)
      have "lastProcessedBlock ?s0 \<le> b" and "sorted (b # bs)"
        using assms(3) Inr cs by simp_all
      from stretch_ordered[OF _ this a] show ?thesis by simp
    qed
  next
    case (AwaitLogs cb idx sub f)
    have cs: "cycleBlock s = cb"
      using pc AwaitLogs by (simp add: cycleBlock_def)
    let ?s1 = "pollEventsResume x cb sub f ?s0"
    have a: "answer x k s = pollEventsFrom cb (Suc idx) (drop (Suc idx) (subscriptions ?s1)) ?s1"
      using pc k AwaitLogs by (simp add: answer_def Let_def)
    have w1: "lastProcessedBlock ?s1 = lastProcessedBlock s \<or> lastProcessedBlock ?s1 = cb"
      using pollEventsResume_fields(3)[of x cb sub f ?s0] by simp
    have p1: "pending ?s1 = []"
      by (simp add: pollEventsResume_fields)
    have le1: "lastProcessedBlock ?s1 \<le> cb" and up1: "lastProcessedBlock s \<le> lastProcessedBlock ?s1"
      using w1 assms(2) cs by auto
    have "sorted (cb # bs)"
      using assms(3) cs by (auto simp: sorted_append)
    from stretch_ordered[OF p1 le1 this a] up1 show ?thesis by simp
  qed
qed

lemma step_ordered:
  assumes "length (pending s) \<le> 1" and "length (pending (step s e)) \<le> 1"
      and "lastProcessedBlock s \<le> cycleBlock s"
      and "sorted (cycleBlock s # polledBlock e @ bs)"
  shows "lastProcessedBlock s \<le> lastProcessedBlock (step s e) \<and>
         lastProcessedBlock (step s e) \<le> cycleBlock (step s e) \<and>
         sorted (cycleBlock (step s e) # bs)"
proof -
  obtain x ev where e: "e = (x, ev)" by (cases e)
  show ?thesis
  proof (cases "isAnswer ev")
    case True
    then obtain k where "ev = Answer k" by (cases ev) simp_all
    then show ?thesis using answer_ordered[OF assms(1,3), of x k bs] assms(4) e by simp
  next
    case False
    have pb: "polledBlock e = []"
      using False e by (cases ev) simp_all
    have w: "lastProcessedBlock (step s e) = lastProcessedBlock s"
      using step_frame(1)[OF False] e by simp
    have "pending (step s e) = pending s \<or> pending (step s e) = pending s @ [AwaitBlockNumber]"
      using step_frame(2)[OF False] e by simp
    then have c: "cycleBlock (step s e) = cycleBlock s"
    proof
      assume "pending (step s e) = pending s"
      then show ?thesis using w by (simp add: cycleBlock_def split: list.splits PendingCall.splits)
    next
      assume a: "pending (step s e) = pending s @ [AwaitBlockNumber]"
      then have "pending s = []" using assms(2) by simp
      then show ?thesis using a w by (simp add: cycleBlock_def)
    qed
    show ?thesis using w c assms(3,4) pb by simp
  qed
qed

lemma sorted_watermarks:
  "oneAtATime s es \<Longrightarrow> lastProcessedBlock s \<le> cycleBlock s \<Longrightarrow>
   sorted (cycleBlock s # blockNumbers es) \<Longrightarrow> sorted (watermarks s es)"
proof (induction es arbitrary: s)
  case Nil
  then show ?case by simp
next
  case (Cons e es)
  have one: "length (pending s) \<le> 1" and one': "oneAtATime (step s e) es"
    using Cons.prems(1) by simp_all
  have next_one: "length (pending (step s e)) \<le> 1"
    using one' by (cases es) simp_all
  have bs: "blockNumbers (e # es) = polledBlock e @ blockNumbers es"
    by (simp add: blockNumbers_def)
  have so: "sorted (cycleBlock s # polledBlock e @ blockNumbers es)"
    using Cons.prems(3) bs by simp
  note st = step_ordered[OF one next_one Cons.prems(2) so]
  then have "sorted (watermarks (step s e) es)"
    using Cons.IH[OF one'] by blast
  moreover have "watermarks (step s e) es \<noteq> [] \<and>
      hd (watermarks (step s e) es) = lastProcessedBlock (step s e)"
    by (cases es) simp_all
  ultimately show ?case using st
    by (cases "watermarks (step s e) es") auto
qed

text \<open>
  Claim C4, as stated, fails: with \<open>block\<close> subscribed, a polling cycle in which
  \<open>getBlockNumber\<close> returns 10 followed by one in which it returns 5 moves the watermark
  from 10 down to 5.
\<close>

theorem watermark_follows_lower_block_number:
  "watermarks blockOnly (pollCycle (blockAt 10) 1 0 1 @ pollCycle (blockAt 5) 1 0 1) =
     [0, 0, 10, 10, 5] \<and>
   \<not> sorted (watermarks blockOnly (pollCycle (blockAt 10) 1 0 1 @ pollCycle (blockAt 5) 1 0 1))"
  by (simp add: handler_defs const_defs scenario_defs Let_def)

text \<open>
  The cycles must not overlap either: with \<open>0xA\<close> subscribed, a cycle at block 5 waits for
  its logs while the next cycle, at block 9, starts, receives its logs and sets the watermark
  to 9; the answer to the first cycle then sets it back to 5.
\<close>

lemma overlapping_cycles_lower_watermark:
  "watermarks oneAddress
     [(blockAt 5, TimerFires 1), (blockAt 5, Answer 0), (blockAt 9, TimerFires 1),
      (blockAt 9, Answer 1), (blockAt 9, Answer 1), (blockAt 9, Answer 0)] =
     [0, 0, 0, 0, 0, 9, 5] \<and>
   blockNumbers
     [(blockAt 5, TimerFires 1), (blockAt 5, Answer 0), (blockAt 9, TimerFires 1),
      (blockAt 9, Answer 1), (blockAt 9, Answer 1), (blockAt 9, Answer 0)] = [5, 9, 9, 9]"
  by (simp add: handler_defs const_defs scenario_defs Let_def blockNumbers_def)

text \<open>
  Claim C4, amended. Along every run that starts while no polling cycle is under way, in
  which polling cycles do not overlap and the block numbers returned by \<open>getBlockNumber\<close>
  are non-decreasing and not below the initial watermark, the watermark is non-decreasing;
  and a notification that is not an answer to a call of a polling cycle leaves the watermark
  as it is.
\<close>

theorem watermark_monotone_for_monotone_block_numbers:
  assumes "pending s = []" and "oneAtATime s es"
      and "sorted (lastProcessedBlock s # blockNumbers es)"
  shows "sorted (watermarks s es) \<and>
         (\<not> isAnswer ev \<longrightarrow> lastProcessedBlock (step s' (x, ev)) = lastProcessedBlock s')"
proof -
  have c: "cycleBlock s = lastProcessedBlock s"
    using assms(1) by (simp add: cycleBlock_def)
  have "sorted (watermarks s es)"
    using sorted_watermarks[OF assms(2)] assms(3) c by simp
  then show ?thesis using step_frame(1)[of ev s' x] by blast
qed

theorem watermark_monotone_for_monotone_block_numbers_witness:
  "pending blockOnly = [] \<and>
   oneAtATime blockOnly (pollCycle (blockAt 5) 1 0 1 @ pollCycle (blockAt 7) 1 0 1) \<and>
   sorted (lastProcessedBlock blockOnly #
           blockNumbers (pollCycle (blockAt 5) 1 0 1 @ pollCycle (blockAt 7) 1 0 1)) \<and>
   watermarks blockOnly (pollCycle (blockAt 5) 1 0 1 @ pollCycle (blockAt 7) 1 0 1) = [0, 0, 5, 5, 7] \<and>
   sorted (watermarks blockOnly (pollCycle (blockAt 5) 1 0 1 @ pollCycle (blockAt 7) 1 0 1)) \<and>
   isAnswer (SocketClose 0) = False \<and>
   lastProcessedBlock (step blockOnly (quiet, SocketClose 0)) = lastProcessedBlock blockOnly"
proof -
  have 0: "lastProcessedBlock blockOnly = 0" and 1: "pending blockOnly = []"
    by (simp_all add: handler_defs const_defs scenario_defs)
  have 2: "oneAtATime blockOnly (pollCycle (blockAt 5) 1 0 1 @ pollCycle (blockAt 7) 1 0 1)"
    by (simp add: handler_defs const_defs scenario_defs Let_def)
  have 3: "sorted (lastProcessedBlock blockOnly #
           blockNumbers (pollCycle (blockAt 5) 1 0 1 @ pollCycle (blockAt 7) 1 0 1))"
    unfolding 0 by (simp add: blockNumbers_def pollCycle_def blockAt_def quiet_def)
  have 4: "watermarks blockOnly (pollCycle (blockAt 5) 1 0 1 @ pollCycle (blockAt 7) 1 0 1) = [0, 0, 5, 5, 7]"
    by (simp add: handler_defs const_defs scenario_defs Let_def)
  from watermark_monotone_for_monotone_block_numbers[OF 1 2 3, of "SocketClose 0" blockOnly quiet] 1 2 3 4
  show ?thesis by simp
qed

subsection \<open>Replay and the facade\<close>

lemma replayCalls_append: "replayCalls x p (xs @ ys) = replayCalls x p xs @ replayCalls x p ys"
  by (induction xs) (simp_all split: sum.splits)

lemma subscribeCalls_replayCalls:
  "subscribeCalls (replayCalls x p subs) = map (\<lambda>sub. (p, type sub, listener sub)) subs"
  by (induction subs) (simp_all split: sum.splits)

lemma resubscribeLoop_eq:
  "provider s = Some p \<Longrightarrow>
     resubscribeLoop x subs s = s\<lparr>effects := effects s @ replayCalls x p subs\<rparr>"
proof (induction subs arbitrary: s)
  case Nil
  show ?case by simp
next
  case (Cons sub subs)
  let ?s1 = "resubscribeOne x sub s"
  have 1: "?s1 = s\<lparr>effects := effects s @ ProviderOn p (type sub) (listener sub) #
      (case onResult x p (type sub) (listener sub) of
          Inl e \<Rightarrow> [ConsoleError (ResubscribeFailed (type sub))] | Inr r \<Rightarrow> [])\<rparr>"
    using Cons.prems
    by (simp add: resubscribeOne_def resubscribeTry_def originalOn_def emit_def split: sum.splits)
  have 2: "provider ?s1 = Some p"
    unfolding 1 using Cons.prems by simp
  have "resubscribeLoop x (sub # subs) s = resubscribeLoop x subs ?s1"
    by simp
  also have "\<dots> = ?s1\<lparr>effects := effects ?s1 @ replayCalls x p subs\<rparr>"
    by (rule Cons.IH[OF 2])
  also have "\<dots> = s\<lparr>effects := effects s @ replayCalls x p (sub # subs)\<rparr>"
    unfolding 1 by (simp split: sum.splits)
  finally show ?case .
qed

text \<open>
  Lines 81 to 88 when the client is ready: the client \<open>wsp\<close> becomes the provider, the
  registry is replayed on it and the promise is resolved.
\<close>

lemma waitReady_ready:
  assumes "providerReady x"
  shows "waitReady x wsp s =
     resolve (Some wsp) (s\<lparr>provider := Some wsp, effects := effects s @ replayCalls x wsp (subscriptions s)\<rparr>)"
proof -
  have "resubscribe x (s\<lparr>provider := Some wsp\<rparr>) =
      s\<lparr>provider := Some wsp, effects := effects s @ replayCalls x wsp (subscriptions s)\<rparr>"
    unfolding resubscribe_def by (subst resubscribeLoop_eq[of _ wsp]) simp_all
  then show ?thesis using assms by (simp add: waitReady_def Let_def)
qed

text \<open>The open handler when nothing throws, \<open>this.ws\<close> is the socket that opens and the client is ready.\<close>

lemma open_ready:
  assumes "i < length (sockets s)" and "sockets s ! i = CONNECTING" and "ws s = Some i"
      and "\<not> constructorThrows x" and "\<not> startThrows x" and "providerReady x"
  shows "effects (step s (x, SocketOpen i)) =
           effects s @ NewProvider (nextProvider s) # replayCalls x (nextProvider s) (subscriptions s)"
    and "provider (step s (x, SocketOpen i)) = Some (nextProvider s)"
    and "subscriptions (step s (x, SocketOpen i)) = subscriptions s"
  using assms
  by (simp_all add: openHandler_def Let_def waitSocket_def socketIsOpen_def waitReady_ready
        setupEventPolling_def setupKeepAlive_def setInterval_def emit_def resolve_def)

text \<open>
  Claim C6. In a polling cycle whose calls are answered one after the other (such a cycle
  is \<open>pollEvents\<close>), let handling the address subscription \<open>bad\<close> raise an error: its query
  raises, or its listener throws. Then the error is reported, nothing but the calls made is
  changed by \<open>bad\<close>, and the loop goes on with the subscriptions after it. Whatever the
  collaborators answer, every subscription \<open>sib\<close> of the registry is processed in full: for
  \<open>block\<close> the watermark is set; for an address the query is made with that address up to
  the current block, and either its error is reported, or the listener is called on the
  logs up to the first call that throws and that error is reported, or the listener is called
  on every log and the watermark is set. Also when the answer to a pending query arrives in
  any state and handling it raises, the error is reported and the loop goes on from the next
  position of the registry. In a replay after reconnection, let the client's \<open>on\<close> throw for
  \<open>bad'\<close>: the calls made are the construction of the client, the replay of the entries before
  \<open>bad'\<close>, the call for \<open>bad'\<close> and the report of its error, and the replay of the entries after
  it.
\<close>

theorem failure_of_one_subscription_is_isolated:
  assumes "find (\<lambda>t. timerId t = h) (timers s) = Some t"
      and "callback t = EventPollCb" and "repeating t" and "provider s \<noteq> None"
      and "blockNumberResult x = Inr cb"
      and "subscriptions s = pre @ bad # post"
      and "type bad = EventName a" and "startsWith a ''0x''"
      and "\<forall>f. address f = a \<and> toBlock f = cb \<longrightarrow> raises x (listener bad) f"
      and "subscriptions s = before @ sib # after"
      and "k < length (pending m)" and "pending m ! k = AwaitLogs cb' idx sub' f'"
      and "raises y (listener sub') f'"
      and "i < length (sockets s')" and "sockets s' ! i = CONNECTING" and "ws s' = Some i"
      and "\<not> constructorThrows x'" and "\<not> startThrows x'" and "providerReady x'"
      and "subscriptions s' = pre' @ bad' # post'"
      and "onResult x' (nextProvider s') (type bad') (listener bad') = Inl e'"
  shows "run s (pollCycle x h (length (pending s)) (Suc (length (addressSelectors (subscriptions s))))) =
           pollEvents x s \<and>
         (let mid = pollLoop x cb pre (emit GetBlockNumber s)
          in \<exists>f. address f = a \<and> toBlock f = cb \<and>
               pollEvents x s =
                 pollLoop x cb post
                   (mid\<lparr>effects := effects mid @ GetLogs f #
                      (case getLogsResult x f of
                         Inl e \<Rightarrow> []
                       | Inr logs \<Rightarrow> map (ListenerCall (listener bad)) (delivered x (listener bad) logs)) @
                      [ConsoleError (PollFailed (type bad))]\<rparr>)) \<and>
         (let m' = pollLoop x cb before (emit GetBlockNumber s)
          in (case type sib of
                EventOther n \<Rightarrow> pollEvents x s = pollLoop x cb after m'
              | EventName b \<Rightarrow>
                  if b = ''block'' then
                    pollEvents x s = pollLoop x cb after (m'\<lparr>lastProcessedBlock := cb\<rparr>)
                  else if startsWith b ''0x'' then
                    (\<exists>f. address f = b \<and> toBlock f = cb \<and>
                       pollEvents x s =
                         pollLoop x cb after
                           (case getLogsResult x f of
                              Inl e \<Rightarrow>
                                m'\<lparr>effects := effects m' @
                                     [GetLogs f, ConsoleError (PollFailed (type sib))]\<rparr>
                            | Inr logs \<Rightarrow>
                                if anyThrows x (listener sib) logs
                                then m'\<lparr>effects := effects m' @ GetLogs f #
                                          map (ListenerCall (listener sib)) (delivered x (listener sib) logs) @
                                          [ConsoleError (PollFailed (type sib))]\<rparr>
                                else m'\<lparr>effects := effects m' @ GetLogs f #
                                          map (ListenerCall (listener sib)) logs,
                                        lastProcessedBlock := cb\<rparr>))
                  else pollEvents x s = pollLoop x cb after m')) \<and>
         step m (y, Answer k) =
           pollEventsFrom cb' (Suc idx) (drop (Suc idx) (subscriptions m))
             (m\<lparr>pending := take k (pending m) @ drop (Suc k) (pending m),
                effects := effects m @
                  (case getLogsResult y f' of
                     Inl e \<Rightarrow> []
                   | Inr logs \<Rightarrow> map (ListenerCall (listener sub')) (delivered y (listener sub') logs)) @
                  [ConsoleError (PollFailed (type sub'))]\<rparr>) \<and>
         effects (step s' (x', SocketOpen i)) =
           effects s' @ NewProvider (nextProvider s') #
             replayCalls x' (nextProvider s') pre' @
             [ProviderOn (nextProvider s') (type bad') (listener bad'),
              ConsoleError (ResubscribeFailed (type bad'))] @
             replayCalls x' (nextProvider s') post'"
proof -
  let ?mid = "pollLoop x cb pre (emit GetBlockNumber s)"
  let ?fb = "\<lparr>address = a, fromBlock = lastProcessedBlock ?mid + 1, toBlock = cb\<rparr>"
  have link: "run s (pollCycle x h (length (pending s)) (Suc (length (addressSelectors (subscriptions s))))) =
           pollEvents x s"
    by (rule uninterrupted_cycle[OF assms(1-4)])
  have rb: "raises x (listener bad) ?fb"
    using assms(9) by simp
  have bad: "pollSubscription x cb bad ?mid =
      ?mid\<lparr>effects := effects ?mid @ GetLogs ?fb #
                      (case getLogsResult x ?fb of
                         Inl e \<Rightarrow> []
                       | Inr logs \<Rightarrow> map (ListenerCall (listener bad)) (delivered x (listener bad) logs)) @
                      [ConsoleError (PollFailed (type bad))]\<rparr>"
    unfolding pollSubscription_address[OF assms(7,8)]
    using rb by (simp add: Let_def raises_def split: sum.splits)
  have A: "\<exists>f. address f = a \<and> toBlock f = cb \<and>
               pollEvents x s =
                 pollLoop x cb post
                   (?mid\<lparr>effects := effects ?mid @ GetLogs f #
                      (case getLogsResult x f of
                         Inl e \<Rightarrow> []
                       | Inr logs \<Rightarrow> map (ListenerCall (listener bad)) (delivered x (listener bad) logs)) @
                      [ConsoleError (PollFailed (type bad))]\<rparr>)"
    using pollEvents_split[OF assms(5,6)] bad
    by (intro exI[of _ ?fb]) simp
  let ?m' = "pollLoop x cb before (emit GetBlockNumber s)"
  have sp: "pollEvents x s = pollLoop x cb after (pollSubscription x cb sib ?m')"
    by (rule pollEvents_split[OF assms(5,10)])
  have B: "(case type sib of
                EventOther n \<Rightarrow> pollEvents x s = pollLoop x cb after ?m'
              | EventName b \<Rightarrow>
                  if b = ''block'' then
                    pollEvents x s = pollLoop x cb after (?m'\<lparr>lastProcessedBlock := cb\<rparr>)
                  else if startsWith b ''0x'' then
                    (\<exists>f. address f = b \<and> toBlock f = cb \<and>
                       pollEvents x s =
                         pollLoop x cb after
                           (case getLogsResult x f of
                              Inl e \<Rightarrow>
                                ?m'\<lparr>effects := effects ?m' @
                                     [GetLogs f, ConsoleError (PollFailed (type sib))]\<rparr>
                            | Inr logs \<Rightarrow>
                                if anyThrows x (listener sib) logs
                                then ?m'\<lparr>effects := effects ?m' @ GetLogs f #
                                          map (ListenerCall (listener sib)) (delivered x (listener sib) logs) @
                                          [ConsoleError (PollFailed (type sib))]\<rparr>
                                else ?m'\<lparr>effects := effects ?m' @ GetLogs f #
                                          map (ListenerCall (listener sib)) logs,
                                        lastProcessedBlock := cb\<rparr>))
                  else pollEvents x s = pollLoop x cb after ?m')"
  proof (cases "type sib")
    case (EventOther n)
    then show ?thesis using sp by (simp add: pollSubscription_def pollTry_def)
  next
    case (EventName b)
    show ?thesis
    proof (cases "b = ''block''")
      case True
      then show ?thesis using sp EventName by (simp add: pollSubscription_def pollTry_def)
    next
      case nb: False
      show ?thesis
      proof (cases "startsWith b ''0x''")
        case False
        then show ?thesis using sp EventName nb by (simp add: pollSubscription_def pollTry_def)
      next
        case True
        let ?f = "\<lparr>address = b, fromBlock = lastProcessedBlock ?m' + 1, toBlock = cb\<rparr>"
        have "address ?f = b \<and> toBlock ?f = cb \<and>
                       pollEvents x s =
                         pollLoop x cb after
                           (case getLogsResult x ?f of
                              Inl e \<Rightarrow>
                                ?m'\<lparr>effects := effects ?m' @
                                     [GetLogs ?f, ConsoleError (PollFailed (type sib))]\<rparr>
                            | Inr logs \<Rightarrow>
                                if anyThrows x (listener sib) logs
                                then ?m'\<lparr>effects := effects ?m' @ GetLogs ?f #
                                          map (ListenerCall (listener sib)) (delivered x (listener sib) logs) @
                                          [ConsoleError (PollFailed (type sib))]\<rparr>
                                else ?m'\<lparr>effects := effects ?m' @ GetLogs ?f #
                                          map (ListenerCall (listener sib)) logs,
                                        lastProcessedBlock := cb\<rparr>)"
          using sp unfolding pollSubscription_address[OF EventName True]
          by (simp add: Let_def)
        then have "\<exists>f. address f = b \<and> toBlock f = cb \<and>
                       pollEvents x s =
                         pollLoop x cb after
                           (case getLogsResult x f of
                              Inl e \<Rightarrow>
                                ?m'\<lparr>effects := effects ?m' @
                                     [GetLogs f, ConsoleError (PollFailed (type sib))]\<rparr>
                            | Inr logs \<Rightarrow>
                                if anyThrows x (listener sib) logs
                                then ?m'\<lparr>effects := effects ?m' @ GetLogs f #
                                          map (ListenerCall (listener sib)) (delivered x (listener sib) logs) @
                                          [ConsoleError (PollFailed (type sib))]\<rparr>
                                else ?m'\<lparr>effects := effects ?m' @ GetLogs f #
                                          map (ListenerCall (listener sib)) logs,
                                        lastProcessedBlock := cb\<rparr>)"
          by (rule exI[of _ ?f])
        then show ?thesis using EventName nb True by simp
      qed
    qed
  qed
  let ?m0 = "m\<lparr>pending := take k (pending m) @ drop (Suc k) (pending m)\<rparr>"
  have res: "pollEventsResume y cb' sub' f' ?m0 =
      ?m0\<lparr>effects := effects m @
                  (case getLogsResult y f' of
                     Inl e \<Rightarrow> []
                   | Inr logs \<Rightarrow> map (ListenerCall (listener sub')) (delivered y (listener sub') logs)) @
                  [ConsoleError (PollFailed (type sub'))]\<rparr>"
    using assms(13) by (simp add: pollEventsResume_eq raises_def split: sum.splits)
  have D: "step m (y, Answer k) =
           pollEventsFrom cb' (Suc idx) (drop (Suc idx) (subscriptions m))
             (m\<lparr>pending := take k (pending m) @ drop (Suc k) (pending m),
                effects := effects m @
                  (case getLogsResult y f' of
                     Inl e \<Rightarrow> []
                   | Inr logs \<Rightarrow> map (ListenerCall (listener sub')) (delivered y (listener sub') logs)) @
                  [ConsoleError (PollFailed (type sub'))]\<rparr>)"
    using assms(11,12) by (simp add: answer_def Let_def res)
  have C: "effects (step s' (x', SocketOpen i)) =
           effects s' @ NewProvider (nextProvider s') #
             replayCalls x' (nextProvider s') pre' @
             [ProviderOn (nextProvider s') (type bad') (listener bad'),
              ConsoleError (ResubscribeFailed (type bad'))] @
             replayCalls x' (nextProvider s') post'"
    unfolding open_ready(1)[OF assms(14-19)] assms(20)
    using assms(21) by (simp add: replayCalls_append)
  show ?thesis
    unfolding Let_def using link A B C D by blast
qed


theorem failure_of_one_subscription_is_isolated_witness:
  "find (\<lambda>t. timerId t = 1) (timers twoAddresses) =
     Some \<lparr>timerId = 1, callback = EventPollCb, delay = 60000, repeating = True\<rparr> \<and>
   provider twoAddresses = Some 0 \<and>
   blockNumberResult (failsFor ''0xA'') = Inr 5 \<and>
   subscriptions twoAddresses =
     [] @ \<lparr>type = EventName ''0xA'', listener = 1\<rparr> # [\<lparr>type = EventName ''0xB'', listener = 2\<rparr>] \<and>
   startsWith ''0xA'' ''0x'' \<and>
   raises (failsFor ''0xA'') 1 \<lparr>address = ''0xA'', fromBlock = 1, toBlock = 5\<rparr> \<and>
   pending awaitingLogs =
     [AwaitLogs 5 0 \<lparr>type = EventName ''0xA'', listener = 1\<rparr>
        \<lparr>address = ''0xA'', fromBlock = 1, toBlock = 5\<rparr>] \<and>
   raises (throwsOn 10) 1 \<lparr>address = ''0xA'', fromBlock = 1, toBlock = 5\<rparr> \<and>
   1 < length (sockets reconnectingTwo) \<and> sockets reconnectingTwo ! 1 = CONNECTING \<and>
   ws reconnectingTwo = Some 1 \<and> nextProvider reconnectingTwo = 1 \<and>
   \<not> constructorThrows (onThrowsFor ''0xA'') \<and> \<not> startThrows (onThrowsFor ''0xA'') \<and>
   providerReady (onThrowsFor ''0xA'') \<and>
   subscriptions reconnectingTwo =
     [] @ \<lparr>type = EventName ''0xA'', listener = 1\<rparr> # [\<lparr>type = EventName ''0xB'', listener = 2\<rparr>] \<and>
   onResult (onThrowsFor ''0xA'') 1 (EventName ''0xA'') 1 = Inl (Error ''subscribe failed'') \<and>
   run twoAddresses (pollCycle (failsFor ''0xA'') 1 0 3) = pollEvents (failsFor ''0xA'') twoAddresses \<and>
   effects (pollEvents (failsFor ''0xA'') twoAddresses) =
     effects twoAddresses @
       [GetBlockNumber,
        GetLogs \<lparr>address = ''0xA'', fromBlock = 1, toBlock = 5\<rparr>,
        ConsoleError (PollFailed (EventName ''0xA'')),
        GetLogs \<lparr>address = ''0xB'', fromBlock = 1, toBlock = 5\<rparr>,
        ListenerCall 2 7] \<and>
   effects (step awaitingLogs (throwsOn 10, Answer 0)) =
     effects awaitingLogs @ [ListenerCall 1 10, ConsoleError (PollFailed (EventName ''0xA''))] \<and>
   effects (step reconnectingTwo (onThrowsFor ''0xA'', SocketOpen 1)) =
     effects reconnectingTwo @
       [NewProvider 1,
        ProviderOn 1 (EventName ''0xA'') 1,
        ConsoleError (ResubscribeFailed (EventName ''0xA'')),
        ProviderOn 1 (EventName ''0xB'') 2]"
proof -
  let ?A = "\<lparr>type = EventName ''0xA'', listener = 1\<rparr>"
  let ?B = "\<lparr>type = EventName ''0xB'', listener = 2\<rparr>"
  let ?f = "\<lparr>address = ''0xA'', fromBlock = 1, toBlock = 5\<rparr>"
  let ?t = "\<lparr>timerId = 1, callback = EventPollCb, delay = 60000, repeating = True\<rparr>"
  have 1: "find (\<lambda>t. timerId t = 1) (timers twoAddresses) = Some ?t"
    and 4: "provider twoAddresses \<noteq> None" and prov: "provider twoAddresses = Some 0"
    and 6: "subscriptions twoAddresses = [] @ ?A # [?B]"
    and 10: "subscriptions twoAddresses = [?A] @ ?B # []"
    and p0: "pending twoAddresses = []"
    by (simp_all add: handler_defs const_defs scenario_defs)
  have 2: "callback ?t = EventPollCb" and 3: "repeating ?t"
    by simp_all
  have 5: "blockNumberResult (failsFor ''0xA'') = Inr 5"
    by (simp add: scenario_defs)
  have 7: "type ?A = EventName ''0xA''"
    by simp
  have 8: "startsWith ''0xA'' ''0x''"
    by (simp add: startsWith_def)
  have 9: "\<forall>f. address f = ''0xA'' \<and> toBlock f = 5 \<longrightarrow> raises (failsFor ''0xA'') (listener ?A) f"
    by (simp add: raises_def scenario_defs)
  have rf: "raises (failsFor ''0xA'') 1 ?f"
    by (simp add: raises_def scenario_defs)
  have pa: "pending awaitingLogs = [AwaitLogs 5 0 ?A ?f]"
    by (simp add: handler_defs const_defs scenario_defs Let_def)
  have 11: "0 < length (pending awaitingLogs)" and 12: "pending awaitingLogs ! 0 = AwaitLogs 5 0 ?A ?f"
    unfolding pa by simp_all
  have 13: "raises (throwsOn 10) (listener ?A) ?f" and rt: "raises (throwsOn 10) 1 ?f"
    by (simp_all add: raises_def scenario_defs)
  have 14: "1 < length (sockets reconnectingTwo)" and 15: "sockets reconnectingTwo ! 1 = CONNECTING"
    and 16: "ws reconnectingTwo = Some 1" and np: "nextProvider reconnectingTwo = 1"
    and 20: "subscriptions reconnectingTwo = [] @ ?A # [?B]"
    by (simp_all add: reconnectingTwo_def handler_defs const_defs scenario_defs)
  have 17: "\<not> constructorThrows (onThrowsFor ''0xA'')" and 18: "\<not> startThrows (onThrowsFor ''0xA'')"
    and 19: "providerReady (onThrowsFor ''0xA'')"
    and on: "onResult (onThrowsFor ''0xA'') 1 (EventName ''0xA'') 1 = Inl (Error ''subscribe failed'')"
    by (simp_all add: scenario_defs)
  have 21: "onResult (onThrowsFor ''0xA'') (nextProvider reconnectingTwo) (type ?A) (listener ?A) =
      Inl (Error ''subscribe failed'')"
    unfolding np using on by simp
  note th = failure_of_one_subscription_is_isolated
    [OF 1 2 3 4 5 6 7 8 9 10 11 12 13 14 15 16 17 18 19 20 21]
  have n: "Suc (length (addressSelectors (subscriptions twoAddresses))) = 3"
    unfolding 6 by (simp add: startsWith_def)
  have a: "run twoAddresses (pollCycle (failsFor ''0xA'') 1 0 3) = pollEvents (failsFor ''0xA'') twoAddresses"
    using th unfolding p0 n by simp
  have b: "effects (pollEvents (failsFor ''0xA'') twoAddresses) =
     effects twoAddresses @
       [GetBlockNumber, GetLogs ?f, ConsoleError (PollFailed (EventName ''0xA'')),
        GetLogs \<lparr>address = ''0xB'', fromBlock = 1, toBlock = 5\<rparr>, ListenerCall 2 7]"
    by (simp add: handler_defs const_defs scenario_defs)
  have c: "effects (step awaitingLogs (throwsOn 10, Answer 0)) =
     effects awaitingLogs @ [ListenerCall 1 10, ConsoleError (PollFailed (EventName ''0xA''))]"
    by (simp add: handler_defs const_defs scenario_defs Let_def)
  have d0: "effects (step reconnectingTwo (onThrowsFor ''0xA'', SocketOpen 1)) =
           effects reconnectingTwo @ NewProvider (nextProvider reconnectingTwo) #
             replayCalls (onThrowsFor ''0xA'') (nextProvider reconnectingTwo) [] @
             [ProviderOn (nextProvider reconnectingTwo) (type ?A) (listener ?A),
              ConsoleError (ResubscribeFailed (type ?A))] @
             replayCalls (onThrowsFor ''0xA'') (nextProvider reconnectingTwo) [?B]"
    using th by blast
  have d1: "replayCalls (onThrowsFor ''0xA'') 1 [?B] = [ProviderOn 1 (EventName ''0xB'') 2]"
    by (simp add: scenario_defs)
  have d: "effects (step reconnectingTwo (onThrowsFor ''0xA'', SocketOpen 1)) =
     effects reconnectingTwo @
       [NewProvider 1, ProviderOn 1 (EventName ''0xA'') 1,
        ConsoleError (ResubscribeFailed (EventName ''0xA'')), ProviderOn 1 (EventName ''0xB'') 2]"
    using d0 unfolding np d1 by simp
  show ?thesis
    using 1 prov 5 6 8 rf pa rt 14 15 16 np 17 18 19 20 on a b c d by blast
qed

text \<open>
  Claim C7. A connecting socket opens while it is the socket held in \<open>this.ws\<close>, nothing
  throws and the client over it is ready: the provider is the client just constructed, the
  calls made are the construction of that client and then one call of its \<open>on\<close> for every
  entry of the registry, in registry order, and the registry is as before. When the client is
  not ready at once, the handler sleeps; when a sleep ends with the client \<open>p\<close> of that handler
  ready, the same replay is made on \<open>p\<close>. No notification other than a call by client code of
  the wrapped \<open>on\<close> changes the registry, so it is the same after a disconnect and reconnect
  as before.
\<close>

theorem replay_subscribes_each_entry_once:
  assumes "i < length (sockets s)" and "sockets s ! i = CONNECTING" and "ws s = Some i"
      and "\<not> constructorThrows x" and "\<not> startThrows x" and "providerReady x"
      and "list_all (\<lambda>e. \<not> isClientOn e) es"
      and "find (\<lambda>t. timerId t = h) (timers m) = Some t"
      and "callback t = WaitReadyCb p" and "\<not> repeating t" and "providerReady y"
  shows "(let s' = step s (x, SocketOpen i)
          in provider s' = Some (nextProvider s) \<and>
             effects s' =
               effects s @ NewProvider (nextProvider s) #
                 replayCalls x (nextProvider s) (subscriptions s) \<and>
             subscribeCalls (effects s') =
               subscribeCalls (effects s) @
                 map (\<lambda>sub. (nextProvider s, type sub, listener sub)) (subscriptions s) \<and>
             subscriptions s' = subscriptions s) \<and>
         subscriptions (run s es) = subscriptions s \<and>
         (let r = step m (y, TimerFires h)
          in provider r = Some p \<and>
             effects r = effects m @ replayCalls y p (subscriptions m) \<and>
             subscribeCalls (effects r) =
               subscribeCalls (effects m) @ map (\<lambda>sub. (p, type sub, listener sub)) (subscriptions m) \<and>
             subscriptions r = subscriptions m)"
proof -
  note op = open_ready[OF assms(1-6)]
  have calls: "subscribeCalls (effects (step s (x, SocketOpen i))) =
      subscribeCalls (effects s) @ map (\<lambda>sub. (nextProvider s, type sub, listener sub)) (subscriptions s)"
    unfolding op(1) by (simp add: subscribeCalls_append subscribeCalls_replayCalls)
  have fire: "step m (y, TimerFires h) =
      resolve (Some p) ((clearTimer h m)\<lparr>provider := Some p,
         effects := effects (clearTimer h m) @ replayCalls y p (subscriptions (clearTimer h m))\<rparr>)"
    using assms(8-10) by (simp add: fireTimer_def runCallback_def waitReady_ready[OF assms(11)])
  have r: "provider (step m (y, TimerFires h)) = Some p"
    "effects (step m (y, TimerFires h)) = effects m @ replayCalls y p (subscriptions m)"
    "subscriptions (step m (y, TimerFires h)) = subscriptions m"
    unfolding fire by (simp_all add: resolve_def clearTimer_def)
  have rc: "subscribeCalls (effects (step m (y, TimerFires h))) =
      subscribeCalls (effects m) @ map (\<lambda>sub. (p, type sub, listener sub)) (subscriptions m)"
    unfolding r(2) by (simp add: subscribeCalls_append subscribeCalls_replayCalls)
  show ?thesis
    unfolding Let_def using op calls run_subscriptions[OF assms(7)] r rc by blast
qed

theorem replay_subscribes_each_entry_once_witness:
  "1 < length (sockets reconnecting) \<and> sockets reconnecting ! 1 = CONNECTING \<and>
   ws reconnecting = Some 1 \<and>
   \<not> constructorThrows quiet \<and> \<not> startThrows quiet \<and> providerReady quiet \<and>
   list_all (\<lambda>e. \<not> isClientOn e) [(quiet, SocketOpen 1)] \<and>
   find (\<lambda>t. timerId t = 5) (timers (step reconnecting (notReady, SocketOpen 1))) =
     Some \<lparr>timerId = 5, callback = WaitReadyCb 1, delay = 1000, repeating = False\<rparr> \<and>
   subscriptions reconnecting =
     [\<lparr>type = EventName ''block'', listener = 1\<rparr>, \<lparr>type = EventName ''0xABC'', listener = 2\<rparr>] \<and>
   provider reconnecting = Some 0 \<and>
   provider (step reconnecting (quiet, SocketOpen 1)) = Some 1 \<and>
   effects (step reconnecting (quiet, SocketOpen 1)) =
     effects reconnecting @
       [NewProvider 1, ProviderOn 1 (EventName ''block'') 1, ProviderOn 1 (EventName ''0xABC'') 2] \<and>
   subscribeCalls (effects (step reconnecting (quiet, SocketOpen 1))) =
     subscribeCalls (effects reconnecting) @
       [(1, EventName ''block'', 1), (1, EventName ''0xABC'', 2)] \<and>
   subscriptions (run reconnecting [(quiet, SocketOpen 1)]) = subscriptions reconnecting \<and>
   effects (run reconnecting [(notReady, SocketOpen 1), (quiet, TimerFires 5)]) =
     effects reconnecting @
       [NewProvider 1, ProviderOn 1 (EventName ''block'') 1, ProviderOn 1 (EventName ''0xABC'') 2] \<and>
   provider (run reconnecting [(notReady, SocketOpen 1), (quiet, TimerFires 5)]) = Some 1"
proof -
  let ?t = "\<lparr>timerId = 5, callback = WaitReadyCb 1, delay = 1000, repeating = False\<rparr>"
  let ?m = "step reconnecting (notReady, SocketOpen 1)"
  let ?subs = "[\<lparr>type = EventName ''block'', listener = 1\<rparr>, \<lparr>type = EventName ''0xABC'', listener = 2\<rparr>]"
  have 1: "1 < length (sockets reconnecting)" and 2: "sockets reconnecting ! 1 = CONNECTING"
    and 3: "ws reconnecting = Some 1"
    and su: "subscriptions reconnecting = ?subs"
    and pr: "provider reconnecting = Some 0" and np: "nextProvider reconnecting = 1"
    by (simp_all add: reconnecting_def handler_defs const_defs scenario_defs)
  have 4: "\<not> constructorThrows quiet" and 5: "\<not> startThrows quiet" and 6: "providerReady quiet"
    by (simp_all add: quiet_def)
  have 7: "list_all (\<lambda>e. \<not> isClientOn e) [(quiet, SocketOpen 1)]"
    by simp
  have 8: "find (\<lambda>t. timerId t = 5) (timers ?m) = Some ?t"
    and em: "effects ?m = effects reconnecting @ [NewProvider 1]"
    and sm: "subscriptions ?m = ?subs"
    by (simp_all add: reconnecting_def handler_defs const_defs scenario_defs Let_def)
  have 9: "callback ?t = WaitReadyCb 1" and 10: "\<not> repeating ?t"
    by simp_all
  note th = replay_subscribes_each_entry_once[OF 1 2 3 4 5 6 7 8 9 10 6]
  have rq: "replayCalls quiet 1 ?subs =
      [ProviderOn 1 (EventName ''block'') 1, ProviderOn 1 (EventName ''0xABC'') 2]"
    by (simp add: quiet_def)
  have a: "provider (step reconnecting (quiet, SocketOpen 1)) = Some (nextProvider reconnecting)"
    using th unfolding Let_def by blast
  have b0: "effects (step reconnecting (quiet, SocketOpen 1)) =
      effects reconnecting @ NewProvider (nextProvider reconnecting) #
        replayCalls quiet (nextProvider reconnecting) (subscriptions reconnecting)"
    using th unfolding Let_def by blast
  have b: "effects (step reconnecting (quiet, SocketOpen 1)) =
     effects reconnecting @
       [NewProvider 1, ProviderOn 1 (EventName ''block'') 1, ProviderOn 1 (EventName ''0xABC'') 2]"
    using b0 unfolding np su rq by simp
  have c0: "subscribeCalls (effects (step reconnecting (quiet, SocketOpen 1))) =
      subscribeCalls (effects reconnecting) @
        map (\<lambda>sub. (nextProvider reconnecting, type sub, listener sub)) (subscriptions reconnecting)"
    using th unfolding Let_def by blast
  have c: "subscribeCalls (effects (step reconnecting (quiet, SocketOpen 1))) =
     subscribeCalls (effects reconnecting) @
       [(1, EventName ''block'', 1), (1, EventName ''0xABC'', 2)]"
    using c0 unfolding np su by simp
  have d: "subscriptions (run reconnecting [(quiet, SocketOpen 1)]) = subscriptions reconnecting"
    using th by blast
  have e0: "effects (step ?m (quiet, TimerFires 5)) = effects ?m @ replayCalls quiet 1 (subscriptions ?m)"
    using th unfolding Let_def by blast
  have e: "effects (run reconnecting [(notReady, SocketOpen 1), (quiet, TimerFires 5)]) =
     effects reconnecting @
       [NewProvider 1, ProviderOn 1 (EventName ''block'') 1, ProviderOn 1 (EventName ''0xABC'') 2]"
    using e0 unfolding em sm rq by simp
  have f0: "provider (step ?m (quiet, TimerFires 5)) = Some 1"
    using th unfolding Let_def by blast
  have f: "provider (run reconnecting [(notReady, SocketOpen 1), (quiet, TimerFires 5)]) = Some 1"
    using f0 by simp
  show ?thesis
    using 1 2 3 4 5 6 7 8 su pr a[unfolded np] b c d e f by blast
qed

text \<open>
  Claim C8. The \<open>on\<close> installed on the client that \<open>connect()\<close> returned appends the pair of
  selector and listener to the registry, calls the client's own \<open>on\<close> once with the same
  pair, and returns what that call returns; apart from the registry, the state is the one
  the client's own \<open>on\<close> leaves. A call of \<open>on\<close> by client code, once \<open>connect()\<close> has
  resolved with client \<open>p\<close>, is this function.
\<close>

theorem wrapped_on_records_and_forwards:
  "(let r = wrappedOn x p eventName l s
    in subscriptions (snd r) = subscriptions s @ [\<lparr>type = eventName, listener = l\<rparr>] \<and>
       effects (snd r) = effects s @ [ProviderOn p eventName l] \<and>
       fst r = fst (originalOn x p eventName l s) \<and>
       snd r = (snd (originalOn x p eventName l s))
                 \<lparr>subscriptions := subscriptions s @ [\<lparr>type = eventName, listener = l\<rparr>]\<rparr>) \<and>
   step (s\<lparr>resolved := Some (Some p)\<rparr>) (x, ClientOn eventName l) =
     snd (wrappedOn x p eventName l (s\<lparr>resolved := Some (Some p)\<rparr>))"
  by (simp add: wrappedOn_def originalOn_def emit_def Let_def)

end
